theory Spec2Isabelle
  imports Main "HOL-Library.Word"
begin

section \<open>Strings of the host language\<close>

text \<open>
  A JavaScript string is a sequence of UTF-16 code units: \<open>text.length\<close> counts code
  units and \<open>text.charCodeAt(i)\<close> reads one. String literals of the source are written
  with \<open>js\<close>, which maps every ASCII character to its code unit.
\<close>

type_synonym code_unit = "16 word"
type_synonym jsstring = "code_unit list"

definition js :: "string \<Rightarrow> jsstring" where
  "js s = map of_char s"

text \<open>
  \<open>String.prototype.trim\<close> removes the code units of the ECMAScript productions
  WhiteSpace and LineTerminator from both ends.
\<close>

definition isWhiteSpace :: "code_unit \<Rightarrow> bool" where
  "isWhiteSpace c =
     (c = 0x0009 \<or> c = 0x000A \<or> c = 0x000B \<or> c = 0x000C \<or> c = 0x000D \<or> c = 0x0020
      \<or> c = 0x00A0 \<or> c = 0x1680 \<or> (0x2000 \<le> c \<and> c \<le> 0x200A)
      \<or> c = 0x2028 \<or> c = 0x2029 \<or> c = 0x202F \<or> c = 0x205F \<or> c = 0x3000 \<or> c = 0xFEFF)"

definition trim :: "jsstring \<Rightarrow> jsstring" where
  "trim s = rev (dropWhile isWhiteSpace (rev (dropWhile isWhiteSpace s)))"

text \<open>\<open>s.includes(sub)\<close>: \<open>sub\<close> occurs in \<open>s\<close> as a contiguous run.\<close>

fun startsWith :: "jsstring \<Rightarrow> jsstring \<Rightarrow> bool" where
  "startsWith s [] = True"
| "startsWith [] (p # ps) = False"
| "startsWith (c # cs) (p # ps) = (c = p \<and> startsWith cs ps)"

fun includesSub :: "jsstring \<Rightarrow> jsstring \<Rightarrow> bool" where
  "includesSub [] sub = (sub = [])"
| "includesSub (c # cs) sub = (startsWith (c # cs) sub \<or> includesSub cs sub)"

text \<open>Decimal rendering of a number inside a template literal (\<open>`${line}`\<close>).\<close>

fun digits :: "nat \<Rightarrow> jsstring" where
  "digits n = (if n < 10 then [of_nat (48 + n)] else digits (n div 10) @ [of_nat (48 + n mod 10)])"

definition numberToString :: "int \<Rightarrow> jsstring" where
  "numberToString n = (if n < 0 then js ''-'' @ digits (nat (- n)) else digits (nat n))"


section \<open>Positions and ranges of the editor\<close>

text \<open>
  \<open>vscode.Position\<close> holds a 0-based line and character; \<open>vscode.Range\<close> holds two
  positions and its constructor orders them, so that \<open>range.start\<close> is never after
  \<open>range.end\<close>.
\<close>

record Position =
  pos_line :: int
  pos_character :: int

record Range =
  range_start :: Position
  range_end :: Position

definition isBefore :: "Position \<Rightarrow> Position \<Rightarrow> bool" where
  "isBefore p q =
     (pos_line p < pos_line q \<or> (pos_line p = pos_line q \<and> pos_character p < pos_character q))"

definition newRange :: "Position \<Rightarrow> Position \<Rightarrow> Range" where
  "newRange s e =
     (if isBefore s e then \<lparr>range_start = s, range_end = e\<rparr>
      else \<lparr>range_start = e, range_end = s\<rparr>)"


section \<open>Position index\<close>

text \<open>
  \<open>computeLineOffsets\<close>: the loop over \<open>i = 0 .. text.length - 1\<close> pushes \<open>i + 1\<close>
  for every code unit 10. The loop is a recursion on the rest of the text, \<open>i\<close> being
  the index of its first code unit.
\<close>

fun lineOffsetsFrom :: "int \<Rightarrow> jsstring \<Rightarrow> int list" where
  "lineOffsetsFrom i [] = []"
| "lineOffsetsFrom i (c # cs) =
     (if c = 10 then (i + 1) # lineOffsetsFrom (i + 1) cs else lineOffsetsFrom (i + 1) cs)"

definition computeLineOffsets :: "jsstring \<Rightarrow> int list" where
  "computeLineOffsets text = 0 # lineOffsetsFrom 0 text"

text \<open>
  The \<open>while (low <= high)\<close> loop of \<open>offsetToPosition\<close>. \<open>None\<close> is the loop ending
  without a \<open>return\<close>. \<open>nextLineStart\<close> is \<open>None\<close> for \<open>Number.POSITIVE_INFINITY\<close>.
  \<open>(low + high) >> 1\<close> is the floor of the half: both are indices of an array no longer
  than a string may be, so the conversion to 32 bits changes nothing.
\<close>

function offsetSearch :: "int \<Rightarrow> int list \<Rightarrow> int \<Rightarrow> int \<Rightarrow> Position option" where
  "offsetSearch offset lineOffsets low high =
     (if low \<le> high then
        (let mid = (low + high) div 2;
             lineStart = lineOffsets ! nat mid;
             nextLineStart = (if mid + 1 < int (length lineOffsets)
                              then Some (lineOffsets ! nat (mid + 1)) else None)
         in if offset < lineStart then offsetSearch offset lineOffsets low (mid - 1)
            else if (case nextLineStart of Some n \<Rightarrow> offset \<ge> n | None \<Rightarrow> False)
              then offsetSearch offset lineOffsets (mid + 1) high
            else Some \<lparr>pos_line = mid, pos_character = offset - lineStart\<rparr>)
      else None)"
  by pat_completeness auto
termination
  by (relation "measure (\<lambda>(offset, lineOffsets, low, high). nat (high - low + 1))") auto

declare offsetSearch.simps [simp del]

text \<open>
  After the loop the source falls back to the last line. The array the entry point
  passes always holds offset 0 (\<open>computeLineOffsets_nonempty\<close>), so
  \<open>lastLineIndex\<close> is an index of it. For an empty array the source would read
  \<open>lineOffsets[-1]\<close> and the \<open>Position\<close> constructor would reject the result;
  no run reaches that, and the properties of the rules are stated for the contexts the
  entry point builds (\<open>newContext\<close>).
\<close>

definition offsetToPosition :: "int \<Rightarrow> int list \<Rightarrow> Position" where
  "offsetToPosition offset lineOffsets =
     (if offset < 0 then \<lparr>pos_line = 0, pos_character = 0\<rparr>
      else case offsetSearch offset lineOffsets 0 (int (length lineOffsets) - 1) of
        Some p \<Rightarrow> p
      | None \<Rightarrow>
          (let lastLineIndex = int (length lineOffsets) - 1;
               lastLineStart = lineOffsets ! nat lastLineIndex;
               character = max 0 (offset - lastLineStart)
           in \<lparr>pos_line = lastLineIndex, pos_character = character\<rparr>))"


section \<open>YAML tree\<close>

text \<open>
  The nodes of the \<open>yaml\<close> library, as far as the validator inspects them. A scalar
  holds its resolved value, of which the rules only ask whether it is a string. Every
  node may carry \<open>range\<close>, of which the first two offsets are read. A pair of a mapping
  holds a key and a value, each possibly \<open>null\<close>; so may an item of a sequence be.
\<close>

datatype scalar_value = SString jsstring | SNumber int | SBoolean bool | SNull

datatype node =
    Scalar scalar_value "(int \<times> int) option"
  | YAMLMap "(node option \<times> node option) list" "(int \<times> int) option"
  | YAMLSeq "node option list" "(int \<times> int) option"
  | Alias jsstring "(int \<times> int) option"

fun nodeRange :: "node \<Rightarrow> (int \<times> int) option" where
  "nodeRange (Scalar v r) = r"
| "nodeRange (YAMLMap items r) = r"
| "nodeRange (YAMLSeq items r) = r"
| "nodeRange (Alias a r) = r"

text \<open>
  A \<open>YAMLParseError\<close> has a message and, for the range, \<open>pos\<close> or \<open>source\<close>.
  A parsed document has its errors and its root node (\<open>contents\<close>, possibly \<open>null\<close>).
\<close>

record YAMLParseError =
  err_message :: jsstring
  err_pos :: "(int \<times> int) option"
  err_source :: "node option"

record document =
  errors :: "YAMLParseError list"
  contents :: "node option"


section \<open>Data model of the validator\<close>

datatype ValidationLevel = Error | Warning

record ValidationResult =
  level :: ValidationLevel
  message :: jsstring
  vrange :: Range
  command :: "jsstring option"
  line :: int

record MaestroCommand =
  name :: jsstring
  nameNode :: "node option"
  valueNode :: "node option"

record Uri =
  scheme :: jsstring
  fsPath :: jsstring

record RuleContext =
  docText :: jsstring
  uri :: Uri
  lineOffsets :: "int list"

text \<open>
  What the validator calls outside this repository: the YAML parser, the path functions
  and the existence probe of the file system. They are parameters of the model.
\<close>

record host =
  parseAllDocuments :: "jsstring \<Rightarrow> document list"
  dirname :: "jsstring \<Rightarrow> jsstring"
  isAbsolute :: "jsstring \<Rightarrow> bool"
  resolve :: "jsstring \<Rightarrow> jsstring \<Rightarrow> jsstring"
  existsSync :: "jsstring \<Rightarrow> bool"

definition KNOWN_COMMANDS :: "jsstring list" where
  "KNOWN_COMMANDS = map js
     [''tapOn'', ''longPressOn'', ''assertVisible'', ''assertNotVisible'', ''assertTrue'',
      ''assertFalse'', ''assertThat'', ''launchApp'', ''inputText'', ''clearInput'',
      ''eraseText'', ''scroll'', ''swipe'', ''scrollUntilVisible'', ''scrollToIndex'',
      ''scrollUntil'', ''pressKey'', ''hideKeyboard'', ''waitForVisible'',
      ''waitForNotVisible'', ''waitForAnimationToEnd'', ''runScript'', ''runFlow'',
      ''runCommand'', ''takeScreenshot'', ''openLink'', ''back'', ''stopApp'',
      ''copyTextFrom'', ''pasteText'', ''extendState'', ''evalScript'', ''conditional'',
      ''repeat'']"

definition NAV_OR_WAIT_COMMANDS :: "jsstring list" where
  "NAV_OR_WAIT_COMMANDS = map js
     [''tapOn'', ''scroll'', ''swipe'', ''scrollUntilVisible'', ''scrollToIndex'',
      ''scrollUntil'', ''launchApp'', ''runFlow'', ''openLink'', ''back'', ''pressKey'',
      ''waitForVisible'', ''waitForNotVisible'', ''waitForAnimationToEnd'', ''repeat'',
      ''conditional'']"


section \<open>Ranges and results\<close>

definition rangeFromNode :: "node option \<Rightarrow> RuleContext \<Rightarrow> Range" where
  "rangeFromNode nd context =
     (case (case nd of Some n \<Rightarrow> nodeRange n | None \<Rightarrow> None) of
        Some (r0, r1) \<Rightarrow>
          (let startOffset = max 0 (min (int (length (docText context))) r0);
               endOffset = max startOffset (min (int (length (docText context))) r1);
               start = offsetToPosition startOffset (lineOffsets context);
               end = offsetToPosition endOffset (lineOffsets context)
           in newRange start end)
      | None \<Rightarrow>
          (let start = \<lparr>pos_line = 0, pos_character = 0\<rparr> in newRange start start))"

text \<open>The prefix of a message names the command when \<open>commandName\<close> is a non-empty string.\<close>

definition createResult ::
  "RuleContext \<Rightarrow> ValidationLevel \<Rightarrow> jsstring \<Rightarrow> node option \<Rightarrow> jsstring option
     \<Rightarrow> ValidationResult" where
  "createResult context lvl rawMessage nd commandName =
     (let rng = rangeFromNode nd context;
          ln = pos_line (range_start rng) + 1;
          prefix = (case commandName of
                      Some c \<Rightarrow> if c \<noteq> [] then c @ js '' at line '' @ numberToString ln @ js '': ''
                                else js ''Line '' @ numberToString ln @ js '': ''
                    | None \<Rightarrow> js ''Line '' @ numberToString ln @ js '': '')
      in \<lparr>level = lvl, message = prefix @ rawMessage, vrange = rng,
          command = commandName, line = ln\<rparr>)"

definition errorRangeFromYamlError :: "YAMLParseError \<Rightarrow> RuleContext \<Rightarrow> Range" where
  "errorRangeFromYamlError err context =
     (case err_pos err of
        Some (startOffset, endOffset) \<Rightarrow>
          (let start = offsetToPosition startOffset (lineOffsets context)
           in newRange start start)
      | None \<Rightarrow>
          (case err_source err of
             Some source \<Rightarrow> rangeFromNode (Some source) context
           | None \<Rightarrow> (let start = \<lparr>pos_line = 0, pos_character = 0\<rparr> in newRange start start)))"


section \<open>Command extraction\<close>

text \<open>
  \<open>commandsOfItem\<close> is the callback of \<open>seq.items.forEach\<close>: the commands it pushes
  for one item (none or one).
\<close>

fun commandsOfItem :: "node option \<Rightarrow> MaestroCommand list" where
  "commandsOfItem None = []"
| "commandsOfItem (Some (Scalar v r)) =
     (case v of
        SString scalarValue \<Rightarrow>
          if length (trim scalarValue) > 0
          then [\<lparr>name = scalarValue, nameNode = Some (Scalar v r), valueNode = None\<rparr>]
          else []
      | _ \<Rightarrow> [])"
| "commandsOfItem (Some (YAMLMap items r)) =
     (case items of
        [] \<Rightarrow> []
      | (keyNode, valNode) # rest \<Rightarrow>
          (case keyNode of
             Some (Scalar (SString keyValue) kr) \<Rightarrow>
               if length (trim keyValue) > 0
               then [\<lparr>name = keyValue, nameNode = keyNode, valueNode = valNode\<rparr>]
               else []
           | _ \<Rightarrow> []))"
| "commandsOfItem (Some (YAMLSeq items r)) = []"
| "commandsOfItem (Some (Alias a r)) = []"

definition extractCommandsFromSequence :: "node option list \<Rightarrow> MaestroCommand list" where
  "extractCommandsFromSequence items = concat (map commandsOfItem items)"

text \<open>
  \<open>collectNestedCommandSequencesFromMap\<close> appends to the array \<open>sequences\<close> it is given;
  the model returns the array after the call. \<open>pushNestedCommands\<close> is the first
  statement of the loop body (the \<open>commands\<close> key holding a sequence), the recursion into
  a value that is a mapping is the second.
\<close>

definition pushNestedCommands ::
  "node option \<Rightarrow> node option \<Rightarrow> MaestroCommand list list \<Rightarrow> MaestroCommand list list" where
  "pushNestedCommands keyNode valNode sequences =
     (let keyName = (case keyNode of Some (Scalar (SString s) r) \<Rightarrow> Some s | _ \<Rightarrow> None)
      in case valNode of
           Some (YAMLSeq items r) \<Rightarrow>
             if keyName = Some (js ''commands'') then
               (let nested = extractCommandsFromSequence items
                in if length nested > 0 then sequences @ [nested] else sequences)
             else sequences
         | _ \<Rightarrow> sequences)"

function (sequential) collectNestedCommandSequencesFromMap ::
  "(node option \<times> node option) list \<Rightarrow> MaestroCommand list list \<Rightarrow> MaestroCommand list list" where
  "collectNestedCommandSequencesFromMap [] sequences = sequences"
| "collectNestedCommandSequencesFromMap ((keyNode, Some (YAMLMap items r)) # pairs) sequences =
     collectNestedCommandSequencesFromMap pairs
       (collectNestedCommandSequencesFromMap items
          (pushNestedCommands keyNode (Some (YAMLMap items r)) sequences))"
| "collectNestedCommandSequencesFromMap ((keyNode, valNode) # pairs) sequences =
     collectNestedCommandSequencesFromMap pairs (pushNestedCommands keyNode valNode sequences)"
  by pat_completeness auto
termination
  by (relation "measure (\<lambda>(pairs, sequences).
        size_list (size_prod (size_option size) (size_option size)) pairs)") auto


section \<open>YAML helpers\<close>

fun findMapValueByKey :: "(node option \<times> node option) list \<Rightarrow> jsstring \<Rightarrow> node option" where
  "findMapValueByKey [] key = None"
| "findMapValueByKey ((k, v) # pairs) key =
     (case k of
        Some (Scalar (SString s) r) \<Rightarrow> if s = key then v else findMapValueByKey pairs key
      | _ \<Rightarrow> findMapValueByKey pairs key)"

fun hasAnyStringKey :: "(node option \<times> node option) list \<Rightarrow> jsstring list \<Rightarrow> bool" where
  "hasAnyStringKey items [] = False"
| "hasAnyStringKey items (key # keys) =
     (case findMapValueByKey items key of
        Some (Scalar (SString s) r) \<Rightarrow>
          if length (trim s) > 0 then True else hasAnyStringKey items keys
      | _ \<Rightarrow> hasAnyStringKey items keys)"

definition extractRunFlowTargetPath :: "node \<Rightarrow> jsstring option" where
  "extractRunFlowTargetPath nd =
     (case nd of
        Scalar (SString s) r \<Rightarrow> Some s
      | YAMLMap items r \<Rightarrow>
          (case findMapValueByKey items (js ''flow'') of
             Some (Scalar (SString s) fr) \<Rightarrow> Some s
           | _ \<Rightarrow> None)
      | _ \<Rightarrow> None)"


section \<open>Level 1 command rules\<close>

definition validateTapOnSelector :: "MaestroCommand \<Rightarrow> RuleContext \<Rightarrow> ValidationResult list" where
  \<open>validateTapOnSelector cmd context =
     (if name cmd \<noteq> js ''tapOn'' then []
      else case valueNode cmd of
        None \<Rightarrow>
          [createResult context Error
             (js ''tapOn without selector: add `text`, `id` or `accessibilityLabel` so Maestro knows what to tap.'')
             (nameNode cmd) (Some (name cmd))]
      | Some (Scalar v r) \<Rightarrow>
          if (case v of SString s \<Rightarrow> length (trim s) > 0 | _ \<Rightarrow> False) then []
          else
            [createResult context Error
               (js ''tapOn expects a non-empty text selector when used as a string. Use `tapOn: "Login"` or provide an object with `text`, `id` or `accessibilityLabel`.'')
               (valueNode cmd) (Some (name cmd))]
      | Some (YAMLMap items r) \<Rightarrow>
          (let hasSelector = hasAnyStringKey items [js ''text'', js ''id'', js ''accessibilityLabel'']
           in if \<not> hasSelector then
                [createResult context Error
                   (js ''tapOn without selector: add at least one of `text`, `id` or `accessibilityLabel`.'')
                   (nameNode cmd) (Some (name cmd))]
              else [])
      | Some other \<Rightarrow>
          [createResult context Error
             (js ''tapOn has an unsupported value. Use a string (treated as `text`) or an object with `text`, `id` or `accessibilityLabel`.'')
             (valueNode cmd) (Some (name cmd))])\<close>

definition validateInputTextValue :: "MaestroCommand \<Rightarrow> RuleContext \<Rightarrow> ValidationResult list" where
  \<open>validateInputTextValue cmd context =
     (if name cmd \<noteq> js ''inputText'' then []
      else case valueNode cmd of
        None \<Rightarrow>
          [createResult context Error
             (js ''inputText requires a text value. Use `inputText: "your text"` or an object with a `text` property.'')
             (nameNode cmd) (Some (name cmd))]
      | Some (Scalar v r) \<Rightarrow>
          if (case v of SString s \<Rightarrow> True | _ \<Rightarrow> False) then []
          else
            [createResult context Error
               (js ''inputText value must be a string. Example: `inputText: "email@example.com"`.'')
               (valueNode cmd) (Some (name cmd))]
      | Some (YAMLMap items r) \<Rightarrow>
          (let textNode = findMapValueByKey items (js ''text'')
           in if (case textNode of Some (Scalar (SString s) tr) \<Rightarrow> True | _ \<Rightarrow> False) then []
              else
                [createResult context Error
                   (js ''inputText object must include a string `text` property. Example:'' @ [10]
                    @ js ''`inputText:'' @ [10] @ js ''  text: "email@example.com"`.'')
                   (valueNode cmd) (Some (name cmd))])
      | Some other \<Rightarrow>
          [createResult context Error
             (js ''inputText has an unsupported value. Use a string or an object with a `text` property.'')
             (valueNode cmd) (Some (name cmd))])\<close>

definition validateConditionalHasCommands ::
  "MaestroCommand \<Rightarrow> RuleContext \<Rightarrow> ValidationResult list" where
  \<open>validateConditionalHasCommands cmd context =
     (if name cmd \<noteq> js ''conditional'' then []
      else case valueNode cmd of
        Some (YAMLMap items r) \<Rightarrow>
          (let commandsNode = findMapValueByKey items (js ''commands'')
           in if (case commandsNode of Some (YAMLSeq xs cr) \<Rightarrow> length xs = 0 | _ \<Rightarrow> True) then
                [createResult context Error
                   (js ''conditional without `commands`: add a non-empty `commands` list of steps to run when the condition is met.'')
                   (nameNode cmd) (Some (name cmd))]
              else [])
      | _ \<Rightarrow>
          [createResult context Error
             (js ''conditional must be an object with a `commands` array. Example:'' @ [10]
              @ js ''`conditional:'' @ [10] @ js ''  when: ...'' @ [10] @ js ''  commands:'' @ [10]
              @ js ''    - tapOn: "..."`.'')
             (nameNode cmd) (Some (name cmd))])\<close>

text \<open>
  The existence rule reads the file system through \<open>existsSync\<close> of the host, on the
  target resolved against the directory of the document.
\<close>

definition resolvedPath :: "host \<Rightarrow> RuleContext \<Rightarrow> jsstring \<Rightarrow> jsstring" where
  "resolvedPath h context targetPath =
     (let documentDir = dirname h (fsPath (uri context))
      in if isAbsolute h targetPath then targetPath else resolve h documentDir targetPath)"

definition validateRunFlowFileExists ::
  "host \<Rightarrow> MaestroCommand \<Rightarrow> RuleContext \<Rightarrow> ValidationResult list" where
  \<open>validateRunFlowFileExists h cmd context =
     (if name cmd \<noteq> js ''runFlow'' then []
      else if scheme (uri context) \<noteq> js ''file'' then []
      else case valueNode cmd of
        None \<Rightarrow> []
      | Some v \<Rightarrow>
          (case extractRunFlowTargetPath v of
             None \<Rightarrow> []
           | Some targetPath \<Rightarrow>
               if targetPath = [] then []
               else if includesSub targetPath (js ''${'') then []
               else if \<not> existsSync h (resolvedPath h context targetPath) then
                 [createResult context Error
                    (js ''runFlow references "'' @ targetPath
                     @ js ''" but the file does not exist. Check the path or create the referenced flow file.'')
                    (valueNode cmd) (Some (name cmd))]
               else []))\<close>

definition validateUnknownCommandName ::
  "MaestroCommand \<Rightarrow> RuleContext \<Rightarrow> ValidationResult list" where
  \<open>validateUnknownCommandName cmd context =
     (if name cmd \<in> set KNOWN_COMMANDS then []
      else
        [createResult context Error
           (js ''Unknown Maestro command "'' @ name cmd
            @ js ''". Check for typos or replace with a supported command such as "tapOn" or "assertVisible".'')
           (nameNode cmd) (Some (name cmd))])\<close>


section \<open>Level 2 rules\<close>

definition validateTakeScreenshotHasName ::
  "MaestroCommand \<Rightarrow> RuleContext \<Rightarrow> ValidationResult list" where
  \<open>validateTakeScreenshotHasName cmd context =
     (if name cmd \<noteq> js ''takeScreenshot'' then []
      else case valueNode cmd of
        None \<Rightarrow>
          [createResult context Warning
             (js ''takeScreenshot without a name. Provide a descriptive name so screenshots are easy to identify, e.g. `takeScreenshot: "login_screen"`.'')
             (nameNode cmd) (Some (name cmd))]
      | Some (Scalar v r) \<Rightarrow>
          if (case v of SString s \<Rightarrow> length (trim s) > 0 | _ \<Rightarrow> False) then []
          else
            [createResult context Warning
               (js ''takeScreenshot should use a descriptive name string, e.g. `takeScreenshot: "login_screen"`.'')
               (valueNode cmd) (Some (name cmd))]
      | Some (YAMLMap items r) \<Rightarrow>
          (let nmNode = findMapValueByKey items (js ''name'')
           in if (case nmNode of Some (Scalar (SString s) nr) \<Rightarrow> length (trim s) > 0 | _ \<Rightarrow> False)
              then []
              else
                [createResult context Warning
                   (js ''takeScreenshot object should include a non-empty `name` so screenshots are easy to identify.'')
                   (valueNode cmd) (Some (name cmd))])
      | Some other \<Rightarrow>
          [createResult context Warning
             (js ''takeScreenshot has an unexpected value. Use a string name or an object with a `name` property.'')
             (valueNode cmd) (Some (name cmd))])\<close>

text \<open>
  The two \<open>assertVisible\<close> rules share \<open>handledAsserts\<close>, a set of command objects.
  Every command of a sequence is an object of its own, made by
  \<open>extractCommandsFromSequence\<close>, so the set is modelled by the positions of its
  members in the sequence. The first rule adds to the set; the model returns its
  results together with the set after the call.
\<close>

definition immediatelyAfterTapOnMessage :: jsstring where
  \<open>immediatelyAfterTapOnMessage =
     js ''assertVisible is used immediately after tapOn without an explicit wait. Insert `waitForVisible` between them to reduce flaky tests.''\<close>

function immediatelyAfterTapOnLoop ::
  "MaestroCommand list \<Rightarrow> RuleContext \<Rightarrow> nat \<Rightarrow> ValidationResult list \<Rightarrow> nat set
     \<Rightarrow> ValidationResult list \<times> nat set" where
  "immediatelyAfterTapOnLoop sequence context i results handledAsserts =
     (if int i < int (length sequence) - 1 then
        (let current = sequence ! i;
             next = sequence ! (i + 1)
         in if name current = js ''tapOn'' \<and> name next = js ''assertVisible'' then
              immediatelyAfterTapOnLoop sequence context (i + 1)
                (results @
                   [createResult context Warning immediatelyAfterTapOnMessage
                      (case nameNode next of Some n \<Rightarrow> Some n | None \<Rightarrow> nameNode current)
                      (Some (name next))])
                (insert (i + 1) handledAsserts)
            else immediatelyAfterTapOnLoop sequence context (i + 1) results handledAsserts)
      else (results, handledAsserts))"
  by pat_completeness auto
termination
  by (relation "measure (\<lambda>(sequence, context, i, results, handledAsserts). length sequence - i)")
    auto

declare immediatelyAfterTapOnLoop.simps [simp del]

definition validateAssertVisibleImmediatelyAfterTapOn ::
  "MaestroCommand list \<Rightarrow> RuleContext \<Rightarrow> nat set \<Rightarrow> ValidationResult list \<times> nat set" where
  "validateAssertVisibleImmediatelyAfterTapOn sequence context handledAsserts =
     immediatelyAfterTapOnLoop sequence context 0 [] handledAsserts"

text \<open>The inner loop \<open>for (let j = i - 1; j >= 0; j -= 1)\<close>: the value of \<open>hasNavOrWait\<close>.\<close>

function hasNavOrWaitFrom :: "MaestroCommand list \<Rightarrow> int \<Rightarrow> bool" where
  "hasNavOrWaitFrom sequence j =
     (if j \<ge> 0 then
        (let prev = sequence ! nat j
         in if name prev \<in> set NAV_OR_WAIT_COMMANDS then True
            else hasNavOrWaitFrom sequence (j - 1))
      else False)"
  by pat_completeness auto
termination
  by (relation "measure (\<lambda>(sequence, j). nat (j + 1))") auto

declare hasNavOrWaitFrom.simps [simp del]

definition priorNavigationMessage :: jsstring where
  \<open>priorNavigationMessage =
     js ''assertVisible is used without a prior navigation or wait in this flow. Consider adding `tapOn`, `launchApp`, `scroll`, or `waitForVisible` before this assertion so it checks a meaningful UI state.''\<close>

function priorNavigationLoop ::
  "MaestroCommand list \<Rightarrow> RuleContext \<Rightarrow> nat set \<Rightarrow> nat \<Rightarrow> ValidationResult list
     \<Rightarrow> ValidationResult list" where
  "priorNavigationLoop sequence context handledAsserts i results =
     (if i < length sequence then
        (let cmd = sequence ! i
         in if name cmd \<noteq> js ''assertVisible'' then
              priorNavigationLoop sequence context handledAsserts (i + 1) results
            else if i \<in> handledAsserts then
              priorNavigationLoop sequence context handledAsserts (i + 1) results
            else
              (let hasNavOrWait = hasNavOrWaitFrom sequence (int i - 1)
               in if \<not> hasNavOrWait then
                    priorNavigationLoop sequence context handledAsserts (i + 1)
                      (results @
                         [createResult context Warning priorNavigationMessage
                            (nameNode cmd) (Some (name cmd))])
                  else priorNavigationLoop sequence context handledAsserts (i + 1) results))
      else results)"
  by pat_completeness auto
termination
  by (relation "measure (\<lambda>(sequence, context, handledAsserts, i, results). length sequence - i)")
    auto

declare priorNavigationLoop.simps [simp del]

definition validateAssertVisibleHasPriorNavigationOrWait ::
  "MaestroCommand list \<Rightarrow> RuleContext \<Rightarrow> nat set \<Rightarrow> ValidationResult list" where
  "validateAssertVisibleHasPriorNavigationOrWait sequence context handledAsserts =
     priorNavigationLoop sequence context handledAsserts 0 []"

function duplicateLoop ::
  "MaestroCommand list \<Rightarrow> RuleContext \<Rightarrow> nat \<Rightarrow> ValidationResult list \<Rightarrow> ValidationResult list" where
  \<open>duplicateLoop sequence context i results =
     (if int i < int (length sequence) - 1 then
        (let current = sequence ! i;
             next = sequence ! (i + 1)
         in if name current = name next then
              duplicateLoop sequence context (i + 1)
                (results @
                   [createResult context Warning
                      (js ''Duplicate sequential action: "'' @ name next
                       @ js ''" is called twice in a row. Remove one of them or adjust the flow if this is intentional.'')
                      (case nameNode next of Some n \<Rightarrow> Some n | None \<Rightarrow> nameNode current)
                      (Some (name next))])
            else duplicateLoop sequence context (i + 1) results)
      else results)\<close>
  by pat_completeness auto
termination
  by (relation "measure (\<lambda>(sequence, context, i, results). length sequence - i)") auto

declare duplicateLoop.simps [simp del]

definition validateDuplicateSequentialActions ::
  "MaestroCommand list \<Rightarrow> RuleContext \<Rightarrow> ValidationResult list" where
  "validateDuplicateSequentialActions sequence context = duplicateLoop sequence context 0 []"


section \<open>Entry point\<close>

text \<open>
  One pass of \<open>for (const doc of documents)\<close>: the syntax errors of the document are
  pushed to \<open>results\<close>, then its root is searched for command sequences. The loop
  carries \<open>results\<close> and \<open>commandSequences\<close>.
\<close>

definition yamlErrorResult :: "RuleContext \<Rightarrow> YAMLParseError \<Rightarrow> ValidationResult" where
  "yamlErrorResult context err =
     (let rng = errorRangeFromYamlError err context;
          ln = pos_line (range_start rng) + 1
      in \<lparr>level = Error,
          message = js ''Line '' @ numberToString ln @ js '': YAML parse error '' @ [0x2013]
                    @ js '' '' @ err_message err,
          vrange = rng, command = None, line = ln\<rparr>)"

definition sequencesOfRoot :: "node \<Rightarrow> MaestroCommand list list \<Rightarrow> MaestroCommand list list" where
  "sequencesOfRoot root commandSequences =
     (let commandSequences1 =
            (case root of
               YAMLSeq items r \<Rightarrow>
                 (let commands = extractCommandsFromSequence items
                  in if length commands > 0 then commandSequences @ [commands]
                     else commandSequences)
             | _ \<Rightarrow> commandSequences)
      in case root of
           YAMLMap items r \<Rightarrow> collectNestedCommandSequencesFromMap items commandSequences1
         | _ \<Rightarrow> commandSequences1)"

fun documentsLoop ::
  "RuleContext \<Rightarrow> document list \<Rightarrow> ValidationResult list \<Rightarrow> MaestroCommand list list
     \<Rightarrow> ValidationResult list \<times> MaestroCommand list list" where
  "documentsLoop context [] results commandSequences = (results, commandSequences)"
| "documentsLoop context (doc # docs) results commandSequences =
     (let results1 = results @ map (yamlErrorResult context) (errors doc)
      in case contents doc of
           None \<Rightarrow> documentsLoop context docs results1 commandSequences
         | Some root \<Rightarrow>
             documentsLoop context docs results1 (sequencesOfRoot root commandSequences))"

definition commandRules :: "host \<Rightarrow> RuleContext \<Rightarrow> MaestroCommand \<Rightarrow> ValidationResult list" where
  "commandRules h context cmd =
     validateTapOnSelector cmd context
     @ validateInputTextValue cmd context
     @ validateConditionalHasCommands cmd context
     @ validateRunFlowFileExists h cmd context
     @ validateUnknownCommandName cmd context
     @ validateTakeScreenshotHasName cmd context"

definition sequenceRules :: "RuleContext \<Rightarrow> MaestroCommand list \<Rightarrow> ValidationResult list" where
  "sequenceRules context sequence =
     (let handledAsserts = {};
          (results1, handledAsserts1) =
             validateAssertVisibleImmediatelyAfterTapOn sequence context handledAsserts;
          results2 = validateAssertVisibleHasPriorNavigationOrWait sequence context handledAsserts1;
          results3 = validateDuplicateSequentialActions sequence context
      in results1 @ results2 @ results3)"

definition emptyFlowMessage :: jsstring where
  \<open>emptyFlowMessage =
     js ''Empty Maestro flow: file contains no commands. Add at least one command, for example `launchApp`.''\<close>

definition noCommandsMessage :: jsstring where
  \<open>noCommandsMessage =
     js ''Empty Maestro flow: no commands found after configuration. Add at least one command sequence starting with `- launchApp` or another action.''\<close>

definition newContext :: "jsstring \<Rightarrow> Uri \<Rightarrow> RuleContext" where
  "newContext text u = \<lparr>docText = text, uri = u, lineOffsets = computeLineOffsets text\<rparr>"

definition validateMaestroFlow :: "host \<Rightarrow> jsstring \<Rightarrow> Uri \<Rightarrow> ValidationResult list" where
  "validateMaestroFlow h text u =
     (let context = newContext text u
      in if trim text = [] then [createResult context Error emptyFlowMessage None None]
         else
           (let documents = parseAllDocuments h text;
                (results, commandSequences) = documentsLoop context documents [] [];
                allCommands = concat commandSequences
            in if length allCommands = 0 then
                 results @ [createResult context Error noCommandsMessage None None]
               else
                 results
                 @ concat (map (commandRules h context) allCommands)
                 @ concat (map (sequenceRules context) commandSequences)))"


section \<open>Notions used to state the properties\<close>

text \<open>
  \<open>lineOf ls offset k\<close>: \<open>k\<close> is the greatest index of \<open>ls\<close> whose line start is at
  most \<open>offset\<close>.
\<close>

definition lineOf :: "int list \<Rightarrow> int \<Rightarrow> nat \<Rightarrow> bool" where
  "lineOf ls offset k =
     (k < length ls \<and> ls ! k \<le> offset \<and> (\<forall>j < length ls. ls ! j \<le> offset \<longrightarrow> j \<le> k))"




text \<open>
  The positions \<open>i\<close> of a sequence where a \<open>tapOn\<close> is directly followed by an
  \<open>assertVisible\<close>, in ascending order, and the warning of the adjacency rule for such
  a position.
\<close>

definition tapOnThenAssertVisible :: "MaestroCommand list \<Rightarrow> nat \<Rightarrow> bool" where
  "tapOnThenAssertVisible sequence i =
     (name (sequence ! i) = js ''tapOn'' \<and> name (sequence ! (i + 1)) = js ''assertVisible'')"

definition adjacentPairs :: "MaestroCommand list \<Rightarrow> nat list" where
  "adjacentPairs sequence = filter (tapOnThenAssertVisible sequence) [0..<length sequence - 1]"

definition afterTapOnWarning :: "RuleContext \<Rightarrow> MaestroCommand list \<Rightarrow> nat \<Rightarrow> ValidationResult" where
  "afterTapOnWarning context sequence i =
     createResult context Warning immediatelyAfterTapOnMessage
       (case nameNode (sequence ! (i + 1)) of
          Some n \<Rightarrow> Some n
        | None \<Rightarrow> nameNode (sequence ! i))
       (Some (name (sequence ! (i + 1))))"

text \<open>
  Some command at a position before \<open>i\<close> has a name of the navigation-or-wait
  vocabulary; the positions of the \<open>assertVisible\<close> commands that are not handled and
  have no such command before them; the warning of the prior-navigation rule.
\<close>

definition navOrWaitBefore :: "MaestroCommand list \<Rightarrow> nat \<Rightarrow> bool" where
  "navOrWaitBefore sequence i =
     (\<exists>c \<in> set (take i sequence). name c \<in> set NAV_OR_WAIT_COMMANDS)"

definition withoutPriorNavigation :: "MaestroCommand list \<Rightarrow> nat set \<Rightarrow> nat list" where
  "withoutPriorNavigation sequence handled =
     filter (\<lambda>i. name (sequence ! i) = js ''assertVisible'' \<and> i \<notin> handled
                  \<and> \<not> navOrWaitBefore sequence i)
       [0..<length sequence]"

definition priorNavigationWarning ::
  "RuleContext \<Rightarrow> MaestroCommand list \<Rightarrow> nat \<Rightarrow> ValidationResult" where
  "priorNavigationWarning context sequence i =
     createResult context Warning priorNavigationMessage
       (nameNode (sequence ! i)) (Some (name (sequence ! i)))"


text \<open>
  The command sequences discovered in a text: \<open>commandSequences\<close> after the loop over
  the documents.
\<close>

definition discoveredSequences :: "host \<Rightarrow> jsstring \<Rightarrow> Uri \<Rightarrow> MaestroCommand list list" where
  "discoveredSequences h text u =
     snd (documentsLoop (newContext text u) (parseAllDocuments h text) [] [])"

text \<open>The syntax-error diagnostics of a list of documents, in document order.\<close>

definition syntaxErrors :: "RuleContext \<Rightarrow> document list \<Rightarrow> ValidationResult list" where
  "syntaxErrors ctx docs = concat (map (\<lambda>doc. map (yamlErrorResult ctx) (errors doc)) docs)"

text \<open>
  The paths the existence rule may hand to \<open>existsSync\<close> in a run: the resolved targets
  of the discovered \<open>runFlow\<close> commands.
\<close>

definition runFlowTargets :: "MaestroCommand list \<Rightarrow> jsstring list" where
  "runFlowTargets cmds =
     concat (map (\<lambda>cmd. if name cmd = js ''runFlow''
                         then (case valueNode cmd of
                                 Some v \<Rightarrow> (case extractRunFlowTargetPath v of
                                              Some p \<Rightarrow> [p]
                                            | None \<Rightarrow> [])
                               | None \<Rightarrow> [])
                         else []) cmds)"

definition probedPaths :: "host \<Rightarrow> jsstring \<Rightarrow> Uri \<Rightarrow> jsstring list" where
  "probedPaths h text u =
     map (resolvedPath h (newContext text u))
       (runFlowTargets (concat (discoveredSequences h text u)))"


section \<open>Example inputs\<close>

text \<open>
  A document on disk, and a host whose parser returns the given documents, whose path
  functions are those of a POSIX system for the paths of the examples, and whose file
  system is the given predicate.
\<close>

definition exampleUri :: Uri where
  "exampleUri = \<lparr>scheme = js ''file'', fsPath = js ''/flows/login.yaml''\<rparr>"

definition exampleHost :: "document list \<Rightarrow> (jsstring \<Rightarrow> bool) \<Rightarrow> host" where
  "exampleHost docs ex =
     \<lparr>parseAllDocuments = (\<lambda>text. docs),
      dirname = (\<lambda>p. js ''/flows''),
      isAbsolute = (\<lambda>p. startsWith p (js ''/'')),
      resolve = (\<lambda>dir p. dir @ js ''/'' @ p),
      existsSync = ex\<rparr>"


text \<open>\<open>- runFlow: missing.yaml\<close>\<close>

definition runFlowMissing :: MaestroCommand where
  "runFlowMissing =
     \<lparr>name = js ''runFlow'',
      nameNode = Some (Scalar (SString (js ''runFlow'')) (Some (2, 9))),
      valueNode = Some (Scalar (SString (js ''missing.yaml'')) (Some (11, 23)))\<rparr>"


text \<open>The sequence of \<open>- tapOn: a\<close>, \<open>- assertVisible: a\<close>, and its text.\<close>

definition tapThenAssertText :: jsstring where
  "tapThenAssertText = js ''- tapOn: a'' @ [10] @ js ''- assertVisible: a''"

definition tapThenAssert :: "MaestroCommand list" where
  "tapThenAssert =
     [\<lparr>name = js ''tapOn'',
       nameNode = Some (Scalar (SString (js ''tapOn'')) (Some (2, 7))),
       valueNode = Some (Scalar (SString (js ''a'')) (Some (9, 10)))\<rparr>,
      \<lparr>name = js ''assertVisible'',
       nameNode = Some (Scalar (SString (js ''assertVisible'')) (Some (13, 26))),
       valueNode = Some (Scalar (SString (js ''a'')) (Some (28, 29)))\<rparr>]"



text \<open>The document of \<open>tapThenAssertText\<close>.\<close>

definition tapThenAssertDocs :: "document list" where
  "tapThenAssertDocs =
     [\<lparr>errors = [],
       contents = Some (YAMLSeq
         [Some (YAMLMap
            [(Some (Scalar (SString (js ''tapOn'')) (Some (2, 7))),
              Some (Scalar (SString (js ''a'')) (Some (9, 10))))]
            (Some (2, 10))),
          Some (YAMLMap
            [(Some (Scalar (SString (js ''assertVisible'')) (Some (13, 26))),
              Some (Scalar (SString (js ''a'')) (Some (28, 29))))]
            (Some (13, 29)))]
         (Some (0, 29)))\<rparr>]"

text \<open>
  A text with a syntax error and no command, \<open>appId: "x\<close> (the quote is not closed): the
  parser reports the error and still returns the mapping.
\<close>

definition unclosedQuoteText :: jsstring where
  \<open>unclosedQuoteText = js ''appId: "x''\<close>

definition unclosedQuoteDocs :: "document list" where
  \<open>unclosedQuoteDocs =
     [\<lparr>errors = [\<lparr>err_message = js ''Missing closing "quote'', err_pos = Some (7, 9),
                   err_source = None\<rparr>],
       contents = Some (YAMLMap
         [(Some (Scalar (SString (js ''appId'')) (Some (0, 5))),
           Some (Scalar (SString (js ''x'')) (Some (7, 9))))]
         (Some (0, 9)))\<rparr>]\<close>

text \<open>
  A flow whose only top-level command is a \<open>repeat\<close> with a nested \<open>commands\<close> block
  holding a \<open>tapOn\<close> without selector:
  \<^verbatim>\<open>- repeat:\<close>, \<^verbatim>\<open>    times: 2\<close>, \<^verbatim>\<open>    commands:\<close>, \<^verbatim>\<open>      - tapOn\<close>.
\<close>

definition repeatText :: jsstring where
  "repeatText = js ''- repeat:'' @ [10] @ js ''    times: 2'' @ [10] @ js ''    commands:''
                @ [10] @ js ''      - tapOn''"

definition repeatValue :: node where
  "repeatValue =
     YAMLMap
       [(Some (Scalar (SString (js ''times'')) (Some (14, 19))),
         Some (Scalar (SNumber 2) (Some (21, 22)))),
        (Some (Scalar (SString (js ''commands'')) (Some (27, 35))),
         Some (YAMLSeq [Some (Scalar (SString (js ''tapOn'')) (Some (45, 50)))] (Some (43, 50))))]
       (Some (14, 50))"

definition repeatCommand :: MaestroCommand where
  "repeatCommand =
     \<lparr>name = js ''repeat'',
      nameNode = Some (Scalar (SString (js ''repeat'')) (Some (2, 8))),
      valueNode = Some repeatValue\<rparr>"

definition repeatDocs :: "document list" where
  "repeatDocs =
     [\<lparr>errors = [],
       contents = Some (YAMLSeq
         [Some (YAMLMap
            [(Some (Scalar (SString (js ''repeat'')) (Some (2, 8))), Some repeatValue)]
            (Some (2, 50)))]
         (Some (0, 50)))\<rparr>]"

text \<open>
  The same \<open>repeat\<close> block as the root mapping of a document, not as an item of a list:
  \<^verbatim>\<open>repeat:\<close>, \<^verbatim>\<open>  times: 2\<close>, \<^verbatim>\<open>  commands:\<close>, \<^verbatim>\<open>    - tapOn\<close>.
\<close>

definition repeatAtRootText :: jsstring where
  "repeatAtRootText = js ''repeat:'' @ [10] @ js ''  times: 2'' @ [10] @ js ''  commands:''
                      @ [10] @ js ''    - tapOn''"

definition repeatAtRootDocs :: "document list" where
  "repeatAtRootDocs =
     [\<lparr>errors = [],
       contents = Some (YAMLMap
         [(Some (Scalar (SString (js ''repeat'')) (Some (0, 6))),
           Some (YAMLMap
             [(Some (Scalar (SString (js ''times'')) (Some (10, 15))),
               Some (Scalar (SNumber 2) (Some (17, 18)))),
              (Some (Scalar (SString (js ''commands'')) (Some (21, 29))),
               Some (YAMLSeq [Some (Scalar (SString (js ''tapOn'')) (Some (37, 42)))]
                       (Some (35, 42))))]
             (Some (10, 42))))]
         (Some (0, 42)))\<rparr>]"

definition bareTapOn :: MaestroCommand where
  "bareTapOn =
     \<lparr>name = js ''tapOn'',
      nameNode = Some (Scalar (SString (js ''tapOn'')) (Some (37, 42))),
      valueNode = None\<rparr>"

text \<open>A text with configuration only, \<open>appId: x\<close>, and its document.\<close>

definition configOnlyText :: jsstring where
  "configOnlyText = js ''appId: x''"

definition configOnlyDocs :: "document list" where
  "configOnlyDocs =
     [\<lparr>errors = [],
       contents = Some (YAMLMap
         [(Some (Scalar (SString (js ''appId'')) (Some (0, 5))),
           Some (Scalar (SString (js ''x'')) (Some (7, 8))))]
         (Some (0, 8)))\<rparr>]"

text \<open>The document of \<open>- runFlow: missing.yaml\<close>.\<close>

definition runFlowText :: jsstring where
  "runFlowText = js ''- runFlow: missing.yaml''"

definition runFlowDocs :: "document list" where
  "runFlowDocs =
     [\<lparr>errors = [],
       contents = Some (YAMLSeq
         [Some (YAMLMap
            [(Some (Scalar (SString (js ''runFlow'')) (Some (2, 9))),
              Some (Scalar (SString (js ''missing.yaml'')) (Some (11, 23))))]
            (Some (2, 23)))]
         (Some (0, 23)))\<rparr>]"


section \<open>The position index\<close>

lemma computeLineOffsets_nonempty: "computeLineOffsets text \<noteq> []"
  by (simp add: computeLineOffsets_def)

lemma newContext_lineOffsets: "lineOffsets (newContext text u) \<noteq> []"
  by (simp add: newContext_def computeLineOffsets_def)

lemma lineOffsetsFrom_eq:
  "lineOffsetsFrom i cs = map (\<lambda>k. i + int k + 1) (filter (\<lambda>k. cs ! k = 10) [0..<length cs])"
proof (induction cs arbitrary: i)
  case Nil
  show ?case by simp
next
  case (Cons c cs)
  have up: "[0..<length (c # cs)] = 0 # map Suc [0..<length cs]"
    by (simp add: upt_conv_Cons map_Suc_upt del: upt_Suc)
  show ?case
    unfolding up by (simp add: Cons.IH filter_map comp_def algebra_simps)
qed

lemma lineOffsetsFrom_bounds:
  "x \<in> set (lineOffsetsFrom i cs) \<Longrightarrow> i < x \<and> x \<le> i + int (length cs)"
  by (induction cs arbitrary: i) (fastforce split: if_splits)+

lemma lineOffsetsFrom_sorted: "sorted_wrt (<) (lineOffsetsFrom i cs)"
proof (induction cs arbitrary: i)
  case Nil
  show ?case by simp
next
  case (Cons c cs)
  show ?case using Cons.IH [of "i + 1"] lineOffsetsFrom_bounds [of _ "i + 1" cs]
    by auto
qed

lemma computeLineOffsets_sorted: "sorted_wrt (<) (computeLineOffsets text)"
  using lineOffsetsFrom_bounds [of _ 0 "text"]
  by (auto simp: computeLineOffsets_def lineOffsetsFrom_sorted)

lemma computeLineOffsets_bounds:
  "x \<in> set (computeLineOffsets text) \<Longrightarrow> 0 \<le> x \<and> x \<le> int (length text)"
  using lineOffsetsFrom_bounds [of x 0 "text"]
  by (auto simp: computeLineOffsets_def)

lemma offsetSearch_step:
  "low \<le> high \<Longrightarrow> mid = (low + high) div 2 \<Longrightarrow>
   offsetSearch offset ls low high =
     (if offset < ls ! nat mid then offsetSearch offset ls low (mid - 1)
      else if mid + 1 < int (length ls) \<and> ls ! nat (mid + 1) \<le> offset
        then offsetSearch offset ls (mid + 1) high
      else Some \<lparr>pos_line = mid, pos_character = offset - ls ! nat mid\<rparr>)"
  by (subst offsetSearch.simps) (simp add: Let_def)

lemma offsetSearch_finds:
  assumes "sorted_wrt (<) ls" "lineOf ls offset k" "low \<le> int k" "int k \<le> high" "0 \<le> low" "high < int (length ls)"
  shows "offsetSearch offset ls low high = Some \<lparr>pos_line = int k, pos_character = offset - ls ! k\<rparr>"
  using assms
proof (induction offset ls low high rule: offsetSearch.induct)
  case (1 offset ls low high)
  define mid where "mid = (low + high) div 2"
  have lh: "low \<le> high" using "1.prems"(3,4) by linarith
  have mid: "low \<le> mid" "mid \<le> high" using lh unfolding mid_def by linarith+
  have mid0: "0 \<le> mid" "mid < int (length ls)" using mid "1.prems"(5,6) by linarith+
  have k: "k < length ls" "ls ! k \<le> offset" "\<And>j. j < length ls \<Longrightarrow> ls ! j \<le> offset \<Longrightarrow> j \<le> k"
    using "1.prems"(2) by (auto simp: lineOf_def)
  have mono: "\<And>a b. a \<le> b \<Longrightarrow> b < length ls \<Longrightarrow> ls ! a \<le> ls ! b"
  proof -
    fix a b :: nat assume ab: "a \<le> b" "b < length ls"
    show "ls ! a \<le> ls ! b"
    proof (cases "a = b")
      case True then show ?thesis by simp
    next
      case False
      then have "a < b" using ab by simp
      then have "ls ! a < ls ! b" using "1.prems"(1) ab(2) by (simp add: sorted_wrt_iff_nth_less)
      then show ?thesis by simp
    qed
  qed
  note step = offsetSearch_step [OF lh mid_def, of offset ls]
  show ?case
  proof (cases "offset < ls ! nat mid")
    case True
    have "k < nat mid"
    proof (rule ccontr)
      assume "\<not> k < nat mid"
      then have "nat mid \<le> k" by simp
      then have "ls ! nat mid \<le> ls ! k" using mono k(1) by blast
      then show False using True k(2) by linarith
    qed
    then have kk: "int k \<le> mid - 1" by linarith
    have hh: "mid - 1 < int (length ls)" using mid0 by linarith
    have "offsetSearch offset ls low (mid - 1) = Some \<lparr>pos_line = int k, pos_character = offset - ls ! k\<rparr>"
      by (rule "1.IH"(1) [OF lh mid_def refl refl True "1.prems"(1,2,3) kk "1.prems"(5) hh])
    then show ?thesis using True by (simp add: step)
  next
    case False
    show ?thesis
    proof (cases "mid + 1 < int (length ls) \<and> ls ! nat (mid + 1) \<le> offset")
      case True
      then have "nat (mid + 1) \<le> k" using k(3) [of "nat (mid + 1)"] mid0 by linarith
      then have kk: "mid + 1 \<le> int k" by linarith
      have ll: "0 \<le> mid + 1" using mid0 by linarith
      have c: "case (if mid + 1 < int (length ls) then Some (ls ! nat (mid + 1)) else None) of
                 None \<Rightarrow> False | Some n \<Rightarrow> n \<le> offset"
        using True by simp
      have "offsetSearch offset ls (mid + 1) high = Some \<lparr>pos_line = int k, pos_character = offset - ls ! k\<rparr>"
        by (rule "1.IH"(2) [OF lh mid_def refl refl False c "1.prems"(1,2) kk "1.prems"(4) ll "1.prems"(6)])
      then show ?thesis using False True by (simp add: step)
    next
      case F2: False
      have "nat mid < length ls" using mid0 by linarith
      then have a: "nat mid \<le> k" using k(3) [of "nat mid"] False by linarith
      have "\<not> nat mid < k"
      proof
        assume lt: "nat mid < k"
        then have le: "nat (mid + 1) \<le> k" using mid0 by linarith
        then have "ls ! nat (mid + 1) \<le> ls ! k" using mono k(1) by blast
        moreover have "mid + 1 < int (length ls)" using lt k(1) by linarith
        ultimately show False using F2 k(2) by linarith
      qed
      then have "nat mid = k" using a by linarith
      then have e: "mid = int k" "ls ! nat mid = ls ! k" using mid0 by auto
      have "offsetSearch offset ls low high = Some \<lparr>pos_line = mid, pos_character = offset - ls ! nat mid\<rparr>"
        using False F2 by (auto simp add: step)
      then show ?thesis using e(1) by simp
    qed
  qed
qed

lemma sorted_nth_mono_strict:
  "sorted_wrt (<) (ls :: int list) \<Longrightarrow> a \<le> b \<Longrightarrow> b < length ls \<Longrightarrow> ls ! a \<le> ls ! b"
  by (cases "a = b") (auto simp: sorted_wrt_iff_nth_less less_imp_le)

lemma lineOf_exists:
  assumes "ls \<noteq> []" "ls ! 0 \<le> offset"
  shows "\<exists>k. lineOf ls offset k"
proof -
  let ?S = "{j. j < length ls \<and> ls ! j \<le> offset}"
  have fin: "finite ?S" by simp
  have ne: "?S \<noteq> {}" using assms by auto
  have "Max ?S \<in> ?S" using Max_in [OF fin ne] .
  moreover have "\<forall>j < length ls. ls ! j \<le> offset \<longrightarrow> j \<le> Max ?S"
    using Max_ge [OF fin] by simp
  ultimately have "lineOf ls offset (Max ?S)" by (simp add: lineOf_def)
  then show ?thesis ..
qed

lemma lineOf_unique: "lineOf ls offset k \<Longrightarrow> lineOf ls offset k' \<Longrightarrow> k = k'"
  by (auto simp: lineOf_def intro: le_antisym)

lemma offsetToPosition_lineOf:
  assumes "sorted_wrt (<) ls" "lineOf ls offset k" "0 \<le> offset"
  shows "offsetToPosition offset ls = \<lparr>pos_line = int k, pos_character = offset - ls ! k\<rparr>"
proof -
  have k: "k < length ls" using assms(2) by (simp add: lineOf_def)
  then have hi: "int k \<le> int (length ls) - 1" by linarith
  have "offsetSearch offset ls 0 (int (length ls) - 1)
          = Some \<lparr>pos_line = int k, pos_character = offset - ls ! k\<rparr>"
    by (rule offsetSearch_finds [OF assms(1,2) _ hi]) simp_all
  then show ?thesis using assms(3) by (simp add: offsetToPosition_def)
qed

lemma computeLineOffsets_eq:
  "computeLineOffsets text = 0 # map (\<lambda>i. int i + 1) (filter (\<lambda>i. text ! i = 10) [0..<length text])"
  by (simp add: computeLineOffsets_def lineOffsetsFrom_eq)

lemma computeLineOffsets_lineOf_ex:
  "0 \<le> offset \<Longrightarrow> \<exists>k. lineOf (computeLineOffsets text) offset k"
  by (rule lineOf_exists) (simp_all add: computeLineOffsets_def)

lemma computeLineOffsets_position:
  assumes "0 \<le> offset"
  shows "\<exists>k. lineOf (computeLineOffsets text) offset k
           \<and> offsetToPosition offset (computeLineOffsets text)
               = \<lparr>pos_line = int k, pos_character = offset - computeLineOffsets text ! k\<rparr>"
proof -
  obtain k where k: "lineOf (computeLineOffsets text) offset k"
    using computeLineOffsets_lineOf_ex [OF assms] by blast
  show ?thesis
    using k offsetToPosition_lineOf [OF computeLineOffsets_sorted k assms] by blast
qed

lemma position_last_line:
  assumes "int (length text) \<le> offset"
  shows "pos_line (offsetToPosition offset (computeLineOffsets text))
           = int (length (computeLineOffsets text)) - 1"
proof -
  let ?ls = "computeLineOffsets text"
  have ne: "?ls \<noteq> []" by (simp add: computeLineOffsets_def)
  have off: "0 \<le> offset" using assms by linarith
  have all: "\<forall>j < length ?ls. ?ls ! j \<le> offset"
    using computeLineOffsets_bounds [of _ "text"] assms by (metis nth_mem order_trans)
  have "lineOf ?ls offset (length ?ls - 1)"
    using ne all by (auto simp: lineOf_def)
  then show ?thesis
    using offsetToPosition_lineOf [OF computeLineOffsets_sorted _ off] ne
    by (simp add: of_nat_diff Suc_leI)
qed

lemma position_after_line_feed:
  assumes "i < length text" "text ! i = 10"
  shows "offsetToPosition (int i + 1) (computeLineOffsets text)
           = \<lparr>pos_line = pos_line (offsetToPosition (int i) (computeLineOffsets text)) + 1,
              pos_character = 0\<rparr>"
proof -
  let ?ls = "computeLineOffsets text"
  have srt: "sorted_wrt (<) ?ls" by (rule computeLineOffsets_sorted)
  have "int i + 1 \<in> set ?ls" using assms by (auto simp: computeLineOffsets_eq)
  then obtain m where m: "m < length ?ls" "?ls ! m = int i + 1"
    by (auto simp: in_set_conv_nth)
  have z: "?ls ! 0 = 0" by (simp add: computeLineOffsets_def)
  have m0: "0 < m" using m z by (cases m) auto
  have lm: "lineOf ?ls (int i + 1) m"
    unfolding lineOf_def
  proof (intro conjI allI impI)
    fix j assume j: "j < length ?ls" "?ls ! j \<le> int i + 1"
    show "j \<le> m"
    proof (rule ccontr)
      assume "\<not> j \<le> m"
      then have "m < j" by simp
      then have "?ls ! m < ?ls ! j" using srt j(1) by (simp add: sorted_wrt_iff_nth_less)
      then show False using m(2) j(2) by linarith
    qed
  qed (use m in simp_all)
  have lt: "?ls ! (m - 1) < ?ls ! m"
    using srt m(1) m0 by (simp add: sorted_wrt_iff_nth_less)
  have lp: "lineOf ?ls (int i) (m - 1)"
    unfolding lineOf_def
  proof (intro conjI allI impI)
    show "m - 1 < length ?ls" using m(1) by simp
    show "?ls ! (m - 1) \<le> int i" using lt m(2) by linarith
    fix j assume j: "j < length ?ls" "?ls ! j \<le> int i"
    show "j \<le> m - 1"
    proof (rule ccontr)
      assume "\<not> j \<le> m - 1"
      then have "m \<le> j" by simp
      then have "?ls ! m \<le> ?ls ! j" using sorted_nth_mono_strict [OF srt _ j(1)] by simp
      then show False using m(2) j(2) by linarith
    qed
  qed
  have a: "offsetToPosition (int i + 1) ?ls = \<lparr>pos_line = int m, pos_character = 0\<rparr>"
    using offsetToPosition_lineOf [OF srt lm] m(2) by simp
  have b: "offsetToPosition (int i) ?ls = \<lparr>pos_line = int (m - 1), pos_character = int i - ?ls ! (m - 1)\<rparr>"
    using offsetToPosition_lineOf [OF srt lp] by simp
  show ?thesis using a b m0 by (simp add: of_nat_diff Suc_leI)
qed


text \<open>
  C8. The line-start offsets are offset 0 followed, in order, by every offset right after
  a line feed. For every offset from 0 on, \<open>offsetToPosition\<close> returns the greatest line
  whose start is at most the offset, and the offset minus that start as the column; an
  offset at or beyond the end of the text is on the last line, the empty text resolves to
  line 0, column 0, and the offset right after a line feed is column 0 of the line after
  the line of the line feed.
\<close>

theorem position_index:
  assumes "0 \<le> offset"
  shows "computeLineOffsets text
           = 0 # map (\<lambda>i. int i + 1) (filter (\<lambda>i. text ! i = 10) [0..<length text])
       \<and> (\<exists>k. lineOf (computeLineOffsets text) offset k
              \<and> offsetToPosition offset (computeLineOffsets text)
                  = \<lparr>pos_line = int k, pos_character = offset - computeLineOffsets text ! k\<rparr>)
       \<and> (int (length text) \<le> offset \<longrightarrow>
            pos_line (offsetToPosition offset (computeLineOffsets text))
              = int (length (computeLineOffsets text)) - 1)
       \<and> offsetToPosition 0 (computeLineOffsets []) = \<lparr>pos_line = 0, pos_character = 0\<rparr>
       \<and> (\<forall>i < length text. text ! i = 10 \<longrightarrow>
            offsetToPosition (int i + 1) (computeLineOffsets text)
              = \<lparr>pos_line = pos_line (offsetToPosition (int i) (computeLineOffsets text)) + 1,
                 pos_character = 0\<rparr>)"
proof (intro conjI)
  show "offsetToPosition 0 (computeLineOffsets []) = \<lparr>pos_line = 0, pos_character = 0\<rparr>"
  proof -
    have "lineOf (computeLineOffsets []) 0 0"
      by (simp add: lineOf_def computeLineOffsets_def)
    from offsetToPosition_lineOf [OF computeLineOffsets_sorted this]
    show ?thesis by (simp add: computeLineOffsets_def)
  qed
qed (use assms in \<open>simp_all add: computeLineOffsets_eq [symmetric] computeLineOffsets_position
      position_last_line position_after_line_feed del: upt_Suc\<close>)


theorem position_index_witness:
  "(0::int) \<le> 2
   \<and> computeLineOffsets [97, 10, 98] = [0, 2]
   \<and> offsetToPosition 2 (computeLineOffsets [97, 10, 98]) = \<lparr>pos_line = 1, pos_character = 0\<rparr>
   \<and> offsetToPosition 1 (computeLineOffsets [97, 10, 98]) = \<lparr>pos_line = 0, pos_character = 1\<rparr>
   \<and> offsetToPosition 7 (computeLineOffsets [97, 10, 98]) = \<lparr>pos_line = 1, pos_character = 5\<rparr>"
proof -
  have h: "(0::int) \<le> 2" by simp
  have c: "computeLineOffsets [97, 10, 98] = [0, 2]"
    by (simp add: computeLineOffsets_def)
  show ?thesis
    using position_index [OF h, of "[97, 10, 98]"]
    by (simp add: c offsetToPosition_def offsetSearch.simps)
qed

section \<open>Results\<close>

lemma rangeFromNode_None:
  "rangeFromNode None context
     = \<lparr>range_start = \<lparr>pos_line = 0, pos_character = 0\<rparr>,
        range_end = \<lparr>pos_line = 0, pos_character = 0\<rparr>\<rparr>"
  by (simp add: rangeFromNode_def newRange_def isBefore_def Let_def)

lemma createResult_fields [simp]:
  "level (createResult context lvl raw nd cn) = lvl"
  "vrange (createResult context lvl raw nd cn) = rangeFromNode nd context"
  "command (createResult context lvl raw nd cn) = cn"
  "line (createResult context lvl raw nd cn) = pos_line (range_start (rangeFromNode nd context)) + 1"
  by (simp_all add: createResult_def Let_def)


section \<open>Blank input\<close>

lemma trim_empty_iff: "trim s = [] \<longleftrightarrow> (\<forall>c \<in> set s. isWhiteSpace c)"
proof
  assume "trim s = []"
  then have a: "\<forall>c \<in> set (dropWhile isWhiteSpace s). isWhiteSpace c"
    by (simp add: trim_def)
  have "dropWhile isWhiteSpace s = []"
  proof (cases "dropWhile isWhiteSpace s")
    case (Cons x xs)
    then have "\<not> isWhiteSpace x" using hd_dropWhile [of isWhiteSpace s] by auto
    moreover have "x \<in> set (dropWhile isWhiteSpace s)" using Cons by simp
    ultimately show ?thesis using a by blast
  qed simp
  then show "\<forall>c \<in> set s. isWhiteSpace c" by simp
next
  assume "\<forall>c \<in> set s. isWhiteSpace c"
  then have "dropWhile isWhiteSpace s = []" by simp
  then show "trim s = []" unfolding trim_def by (simp only: rev.simps dropWhile.simps)
qed

text \<open>
  C4. For a text of white space only (the empty text too) the entry point returns one
  diagnostic, the empty-flow error built on the start of the document: Error level,
  line 1. Nothing else is in the list.
\<close>

theorem blank_input:
  assumes "\<forall>c \<in> set text. isWhiteSpace c"
  shows "validateMaestroFlow h text u = [createResult (newContext text u) Error emptyFlowMessage None None]
       \<and> length (validateMaestroFlow h text u) = 1
       \<and> level (hd (validateMaestroFlow h text u)) = Error
       \<and> line (hd (validateMaestroFlow h text u)) = 1"
proof -
  have "trim text = []" using assms by (simp add: trim_empty_iff)
  then have "validateMaestroFlow h text u = [createResult (newContext text u) Error emptyFlowMessage None None]"
    by (simp add: validateMaestroFlow_def)
  then show ?thesis by (simp add: rangeFromNode_None)
qed

theorem blank_input_witness:
  "isWhiteSpace 0x20 \<and> isWhiteSpace 0x0A \<and> isWhiteSpace 0x09
   \<and> length (validateMaestroFlow (exampleHost [] (\<lambda>p. False)) [0x20, 0x0A, 0x09] exampleUri) = 1
   \<and> level (hd (validateMaestroFlow (exampleHost [] (\<lambda>p. False)) [0x20, 0x0A, 0x09] exampleUri))
       = Error
   \<and> line (hd (validateMaestroFlow (exampleHost [] (\<lambda>p. False)) [0x20, 0x0A, 0x09] exampleUri))
       = 1"
proof -
  have w: "\<forall>c \<in> set [0x20, 0x0A, 0x09 :: code_unit]. isWhiteSpace c"
    by (simp add: isWhiteSpace_def)
  show ?thesis
    using w blank_input [OF w, of "exampleHost [] (\<lambda>p. False)" exampleUri]
    by (simp add: rangeFromNode_None)
qed


section \<open>The tapOn selector rule\<close>





section \<open>The runFlow existence rule\<close>

lemma extractRunFlowTargetPath_None_iff:
  "extractRunFlowTargetPath v = None \<longleftrightarrow>
     \<not> (\<exists>s r. v = Scalar (SString s) r)
     \<and> \<not> (\<exists>items r s fr. v = YAMLMap items r
            \<and> findMapValueByKey items (js ''flow'') = Some (Scalar (SString s) fr))"
  by (auto simp: extractRunFlowTargetPath_def split: node.splits scalar_value.splits option.splits)

text \<open>
  C10. For a command named \<open>runFlow\<close>, whatever the location of the document: no
  diagnostic when the value is absent, when no path is extracted (the value is neither a
  string scalar nor a mapping whose \<open>flow\<close> key holds a string scalar), or when the
  extracted path contains \<open>${\<close>. Whenever the rule emits something, it is one Error, a
  path was extracted, it does not contain \<open>${\<close>, and its resolved target does not exist.
\<close>

theorem runFlow_target_existence:
  fixes src :: jsstring and u :: Uri
  defines "context \<equiv> newContext src u"
  assumes "name cmd = js ''runFlow''"
  shows "(valueNode cmd = None \<longrightarrow> validateRunFlowFileExists h cmd context = [])
       \<and> (\<forall>v. valueNode cmd = Some v \<and> extractRunFlowTargetPath v = None
             \<longrightarrow> validateRunFlowFileExists h cmd context = [])
       \<and> (\<forall>v. extractRunFlowTargetPath v = None \<longleftrightarrow>
             \<not> (\<exists>s r. v = Scalar (SString s) r)
             \<and> \<not> (\<exists>items r s fr. v = YAMLMap items r
                    \<and> findMapValueByKey items (js ''flow'') = Some (Scalar (SString s) fr)))
       \<and> (\<forall>v p. valueNode cmd = Some v \<and> extractRunFlowTargetPath v = Some p
                 \<and> includesSub p (js ''${'')
             \<longrightarrow> validateRunFlowFileExists h cmd context = [])
       \<and> (validateRunFlowFileExists h cmd context \<noteq> [] \<longrightarrow>
            (\<exists>v p. valueNode cmd = Some v \<and> extractRunFlowTargetPath v = Some p
                  \<and> \<not> includesSub p (js ''${'')
                  \<and> \<not> existsSync h (resolvedPath h context p)
                  \<and> length (validateRunFlowFileExists h cmd context) = 1
                  \<and> level (hd (validateRunFlowFileExists h cmd context)) = Error))"
proof (intro conjI)
  show "\<forall>v. extractRunFlowTargetPath v = None \<longleftrightarrow>
             \<not> (\<exists>s r. v = Scalar (SString s) r)
             \<and> \<not> (\<exists>items r s fr. v = YAMLMap items r
                    \<and> findMapValueByKey items (js ''flow'') = Some (Scalar (SString s) fr))"
    using extractRunFlowTargetPath_None_iff by blast
qed (use assms in \<open>auto simp: validateRunFlowFileExists_def split: option.splits\<close>)


theorem runFlow_target_existence_witness:
  "name runFlowMissing = js ''runFlow''
   \<and> validateRunFlowFileExists (exampleHost [] (\<lambda>p. False)) runFlowMissing
         (newContext (js ''- runFlow: missing.yaml'') exampleUri) \<noteq> []
   \<and> extractRunFlowTargetPath (Scalar (SString (js ''missing.yaml'')) (Some (11, 23)))
       = Some (js ''missing.yaml'')
   \<and> \<not> includesSub (js ''missing.yaml'') (js ''${'')
   \<and> level (hd (validateRunFlowFileExists (exampleHost [] (\<lambda>p. False)) runFlowMissing
         (newContext (js ''- runFlow: missing.yaml'') exampleUri))) = Error"
proof -
  have n: "name runFlowMissing = js ''runFlow''" by (simp add: runFlowMissing_def)
  have i: "\<not> includesSub (js ''missing.yaml'') (js ''${'')" by (simp add: js_def)
  have e: "validateRunFlowFileExists (exampleHost [] (\<lambda>p. False)) runFlowMissing
             (newContext (js ''- runFlow: missing.yaml'') exampleUri) \<noteq> []"
    using i
    by (simp add: validateRunFlowFileExists_def runFlowMissing_def extractRunFlowTargetPath_def
        newContext_def exampleUri_def exampleHost_def js_def)
  have x: "extractRunFlowTargetPath (Scalar (SString (js ''missing.yaml'')) (Some (11, 23)))
             = Some (js ''missing.yaml'')"
    by (simp add: extractRunFlowTargetPath_def)
  from e runFlow_target_existence [OF n, where h = "exampleHost [] (\<lambda>p. False)"
        and src = "js ''- runFlow: missing.yaml''" and u = exampleUri]
  have "level (hd (validateRunFlowFileExists (exampleHost [] (\<lambda>p. False)) runFlowMissing
         (newContext (js ''- runFlow: missing.yaml'') exampleUri))) = Error"
    by blast
  then show ?thesis using n i e x by simp
qed

section \<open>The assertVisible rules\<close>

lemma int_less_pred_iff: "(int i < int n - 1) = (i < n - 1)"
  by linarith

lemma immediatelyAfterTapOnLoop_stop:
  "\<not> i < length sequence - 1 \<Longrightarrow>
   immediatelyAfterTapOnLoop sequence ctx i results handled = (results, handled)"
  by (subst immediatelyAfterTapOnLoop.simps) (simp add: int_less_pred_iff)

lemma immediatelyAfterTapOnLoop_step:
  "i < length sequence - 1 \<Longrightarrow>
   immediatelyAfterTapOnLoop sequence ctx i results handled =
     (if tapOnThenAssertVisible sequence i
      then immediatelyAfterTapOnLoop sequence ctx (i + 1)
             (results @ [afterTapOnWarning ctx sequence i]) (insert (i + 1) handled)
      else immediatelyAfterTapOnLoop sequence ctx (i + 1) results handled)"
  by (subst immediatelyAfterTapOnLoop.simps)
    (auto simp: Let_def tapOnThenAssertVisible_def afterTapOnWarning_def int_less_pred_iff)

lemma immediatelyAfterTapOnLoop_eq:
  "immediatelyAfterTapOnLoop sequence ctx i results handled =
     (results @ map (afterTapOnWarning ctx sequence)
                  (filter (tapOnThenAssertVisible sequence) [i..<length sequence - 1]),
      handled \<union> Suc ` set (filter (tapOnThenAssertVisible sequence) [i..<length sequence - 1]))"
proof (induction "length sequence - 1 - i" arbitrary: i results handled)
  case 0
  then have "\<not> i < length sequence - 1" by simp
  then show ?case by (simp add: immediatelyAfterTapOnLoop_stop)
next
  case (Suc n)
  then have lt: "i < length sequence - 1" and n: "n = length sequence - 1 - (i + 1)" by simp_all
  have up: "[i..<length sequence - 1] = i # [i + 1..<length sequence - 1]"
    using lt by (simp add: upt_conv_Cons)
  show ?case
    unfolding immediatelyAfterTapOnLoop_step [OF lt] Suc.hyps(1) [OF n] up by simp
qed

lemma validateAssertVisibleImmediatelyAfterTapOn_eq:
  "validateAssertVisibleImmediatelyAfterTapOn sequence ctx handled =
     (map (afterTapOnWarning ctx sequence) (adjacentPairs sequence),
      handled \<union> Suc ` set (adjacentPairs sequence))"
  by (simp add: validateAssertVisibleImmediatelyAfterTapOn_def immediatelyAfterTapOnLoop_eq
      adjacentPairs_def)

lemma hasNavOrWaitFrom_iff:
  "j < int (length sequence) \<Longrightarrow>
   hasNavOrWaitFrom sequence j \<longleftrightarrow> navOrWaitBefore sequence (nat (j + 1))"
proof (induction sequence j rule: hasNavOrWaitFrom.induct)
  case (1 sequence j)
  show ?case
  proof (cases "j \<ge> 0")
    case False
    then show ?thesis
      by (subst hasNavOrWaitFrom.simps) (simp add: navOrWaitBefore_def)
  next
    case True
    have jl: "nat j < length sequence" using True "1.prems" by linarith
    have tk: "take (nat (j + 1)) sequence = take (nat j) sequence @ [sequence ! nat j]"
      using True jl by (simp add: nat_add_distrib take_Suc_conv_app_nth)
    show ?thesis
    proof (cases "name (sequence ! nat j) \<in> set NAV_OR_WAIT_COMMANDS")
      case n: True
      then show ?thesis using True
        by (subst hasNavOrWaitFrom.simps) (simp add: navOrWaitBefore_def tk)
    next
      case n: False
      have "hasNavOrWaitFrom sequence (j - 1) \<longleftrightarrow> navOrWaitBefore sequence (nat (j - 1 + 1))"
        using "1.IH" [OF True refl n] "1.prems" by simp
      then show ?thesis using True n
        by (subst hasNavOrWaitFrom.simps) (simp add: navOrWaitBefore_def tk)
    qed
  qed
qed

lemma priorNavigationLoop_stop:
  "\<not> i < length sequence \<Longrightarrow> priorNavigationLoop sequence ctx handled i results = results"
  by (subst priorNavigationLoop.simps) simp

lemma priorNavigationLoop_step:
  "i < length sequence \<Longrightarrow>
   priorNavigationLoop sequence ctx handled i results =
     (if name (sequence ! i) = js ''assertVisible'' \<and> i \<notin> handled
          \<and> \<not> navOrWaitBefore sequence i
      then priorNavigationLoop sequence ctx handled (i + 1)
             (results @ [priorNavigationWarning ctx sequence i])
      else priorNavigationLoop sequence ctx handled (i + 1) results)"
  using hasNavOrWaitFrom_iff [of "int i - 1" sequence]
  by (subst priorNavigationLoop.simps) (auto simp: Let_def priorNavigationWarning_def)

lemma priorNavigationLoop_eq:
  "priorNavigationLoop sequence ctx handled i results =
     results @ map (priorNavigationWarning ctx sequence)
       (filter (\<lambda>i. name (sequence ! i) = js ''assertVisible'' \<and> i \<notin> handled
                     \<and> \<not> navOrWaitBefore sequence i) [i..<length sequence])"
proof (induction "length sequence - i" arbitrary: i results)
  case 0
  then have "\<not> i < length sequence" by simp
  then show ?case by (simp add: priorNavigationLoop_stop)
next
  case (Suc n)
  then have lt: "i < length sequence" and n: "n = length sequence - (i + 1)" by simp_all
  have up: "[i..<length sequence] = i # [i + 1..<length sequence]"
    using lt by (simp add: upt_conv_Cons)
  show ?case
    unfolding priorNavigationLoop_step [OF lt] Suc.hyps(1) [OF n] up by simp
qed

lemma validateAssertVisibleHasPriorNavigationOrWait_eq:
  "validateAssertVisibleHasPriorNavigationOrWait sequence ctx handled =
     map (priorNavigationWarning ctx sequence) (withoutPriorNavigation sequence handled)"
  by (simp add: validateAssertVisibleHasPriorNavigationOrWait_def priorNavigationLoop_eq
      withoutPriorNavigation_def)


lemma count_list_distinct: "distinct xs \<Longrightarrow> count_list xs x = (if x \<in> set xs then 1 else 0)"
  by (induction xs) auto

lemma includesSub_append: "includesSub b s \<Longrightarrow> includesSub (a @ b) s"
proof (induction a)
  case Nil
  then show ?case by simp
next
  case (Cons x a)
  then show ?case by simp
qed

lemma createResult_message: "\<exists>p. message (createResult ctx lvl raw nd cn) = p @ raw"
  by (simp add: createResult_def Let_def split: option.split)

lemma immediatelyAfterTapOnMessage_mentions:
  "includesSub immediatelyAfterTapOnMessage (js ''immediately after tapOn'')"
  by (simp add: immediatelyAfterTapOnMessage_def js_def)

lemma sequenceRules_eq:
  "sequenceRules ctx sequence =
     map (afterTapOnWarning ctx sequence) (adjacentPairs sequence)
     @ map (priorNavigationWarning ctx sequence)
         (withoutPriorNavigation sequence (Suc ` set (adjacentPairs sequence)))
     @ validateDuplicateSequentialActions sequence ctx"
  by (simp add: sequenceRules_def validateAssertVisibleImmediatelyAfterTapOn_eq
      validateAssertVisibleHasPriorNavigationOrWait_eq)

text \<open>
  C6. In any sequence, where position \<open>i\<close> is a \<open>tapOn\<close> and position \<open>i + 1\<close> an
  \<open>assertVisible\<close>: the adjacency rule returns one warning for each such pair, in order,
  and the pair at \<open>i\<close> is there exactly once; that warning has Warning level, names
  \<open>assertVisible\<close>, says "immediately after tapOn" and lies on the name node of the
  \<open>assertVisible\<close>; the position \<open>i + 1\<close> is in the handled set after the rule; and the
  prior-navigation rule, run with that set, has no warning for \<open>i + 1\<close>.
\<close>
theorem assertVisible_immediately_after_tapOn:
  fixes src :: jsstring and u :: Uri
  defines "ctx \<equiv> newContext src u"
  assumes len: "i + 1 < length sequence"
    and tap: "name (sequence ! i) = js ''tapOn''"
    and av: "name (sequence ! (i + 1)) = js ''assertVisible''"
  shows "validateAssertVisibleImmediatelyAfterTapOn sequence ctx {}
           = (map (afterTapOnWarning ctx sequence) (adjacentPairs sequence),
              Suc ` set (adjacentPairs sequence))
       \<and> count_list (adjacentPairs sequence) i = 1
       \<and> level (afterTapOnWarning ctx sequence i) = Warning
       \<and> command (afterTapOnWarning ctx sequence i) = Some (js ''assertVisible'')
       \<and> includesSub (message (afterTapOnWarning ctx sequence i)) (js ''immediately after tapOn'')
       \<and> (\<forall>n. nameNode (sequence ! (i + 1)) = Some n \<longrightarrow>
             vrange (afterTapOnWarning ctx sequence i) = rangeFromNode (Some n) ctx)
       \<and> i + 1 \<in> snd (validateAssertVisibleImmediatelyAfterTapOn sequence ctx {})
       \<and> validateAssertVisibleHasPriorNavigationOrWait sequence ctx
            (snd (validateAssertVisibleImmediatelyAfterTapOn sequence ctx {}))
           = map (priorNavigationWarning ctx sequence)
               (withoutPriorNavigation sequence (Suc ` set (adjacentPairs sequence)))
       \<and> i + 1 \<notin> set (withoutPriorNavigation sequence (Suc ` set (adjacentPairs sequence)))
       \<and> sequenceRules ctx sequence
           = map (afterTapOnWarning ctx sequence) (adjacentPairs sequence)
             @ map (priorNavigationWarning ctx sequence)
                 (withoutPriorNavigation sequence (Suc ` set (adjacentPairs sequence)))
             @ validateDuplicateSequentialActions sequence ctx"
proof -
  have mem: "i \<in> set (adjacentPairs sequence)"
    using len tap av by (simp add: adjacentPairs_def tapOnThenAssertVisible_def)
  have dist: "distinct (adjacentPairs sequence)" by (simp add: adjacentPairs_def)
  have cnt: "count_list (adjacentPairs sequence) i = 1"
    using mem by (simp add: count_list_distinct [OF dist])
  obtain p where p: "message (afterTapOnWarning ctx sequence i) = p @ immediatelyAfterTapOnMessage"
    unfolding afterTapOnWarning_def using createResult_message by blast
  have msg: "includesSub (message (afterTapOnWarning ctx sequence i)) (js ''immediately after tapOn'')"
    unfolding p by (rule includesSub_append [OF immediatelyAfterTapOnMessage_mentions])
  have h: "i + 1 \<in> Suc ` set (adjacentPairs sequence)" using mem by simp
  have nw: "i + 1 \<notin> set (withoutPriorNavigation sequence (Suc ` set (adjacentPairs sequence)))"
    using h by (simp add: withoutPriorNavigation_def)
  show ?thesis
    using cnt msg h nw av
    by (simp add: validateAssertVisibleImmediatelyAfterTapOn_eq
        validateAssertVisibleHasPriorNavigationOrWait_eq sequenceRules_eq [symmetric]
        afterTapOnWarning_def)
qed

theorem assertVisible_immediately_after_tapOn_witness:
  "0 + 1 < length tapThenAssert
   \<and> name (tapThenAssert ! 0) = js ''tapOn''
   \<and> name (tapThenAssert ! (0 + 1)) = js ''assertVisible''
   \<and> adjacentPairs tapThenAssert = [0]
   \<and> snd (validateAssertVisibleImmediatelyAfterTapOn tapThenAssert
             (newContext tapThenAssertText exampleUri) {}) = {Suc 0}
   \<and> withoutPriorNavigation tapThenAssert {Suc 0} = []
   \<and> sequenceRules (newContext tapThenAssertText exampleUri) tapThenAssert
       = [afterTapOnWarning (newContext tapThenAssertText exampleUri) tapThenAssert 0]
   \<and> line (afterTapOnWarning (newContext tapThenAssertText exampleUri) tapThenAssert 0) = 2"
proof -
  have a: "0 + 1 < length tapThenAssert" by (simp add: tapThenAssert_def)
  have b: "name (tapThenAssert ! 0) = js ''tapOn''" by (simp add: tapThenAssert_def)
  have c: "name (tapThenAssert ! (0 + 1)) = js ''assertVisible''" by (simp add: tapThenAssert_def)
  have ne: "js ''tapOn'' \<noteq> js ''assertVisible''" by (simp add: js_def)
  have d: "adjacentPairs tapThenAssert = [0]"
    by (simp add: adjacentPairs_def tapOnThenAssertVisible_def tapThenAssert_def)
  have e: "withoutPriorNavigation tapThenAssert {Suc 0} = []"
    using ne by (simp add: withoutPriorNavigation_def tapThenAssert_def)
  have f: "validateDuplicateSequentialActions tapThenAssert
             (newContext tapThenAssertText exampleUri) = []"
    using ne by (simp add: validateDuplicateSequentialActions_def duplicateLoop.simps tapThenAssert_def)
  have lo: "computeLineOffsets tapThenAssertText = [0, 11]"
    by (simp add: computeLineOffsets_def tapThenAssertText_def js_def)
  have len: "length tapThenAssertText = 29" by (simp add: tapThenAssertText_def js_def)
  have p1: "offsetToPosition 13 [0, 11] = \<lparr>pos_line = 1, pos_character = 2\<rparr>"
    by (simp add: offsetToPosition_def offsetSearch.simps)
  have p2: "offsetToPosition 26 [0, 11] = \<lparr>pos_line = 1, pos_character = 15\<rparr>"
    by (simp add: offsetToPosition_def offsetSearch.simps)
  have g: "line (afterTapOnWarning (newContext tapThenAssertText exampleUri) tapThenAssert 0) = 2"
    by (simp add: afterTapOnWarning_def tapThenAssert_def rangeFromNode_def newContext_def lo len
        p1 p2 newRange_def isBefore_def)
  show ?thesis
    using a b c g
      assertVisible_immediately_after_tapOn [OF a b c, where src = tapThenAssertText
        and u = exampleUri]
    by (simp add: d e f)
qed





section \<open>The entry point\<close>

lemma documentsLoop_fst:
  "fst (documentsLoop ctx docs results seqs) = results @ syntaxErrors ctx docs"
  by (induction docs arbitrary: results seqs)
    (simp_all add: syntaxErrors_def Let_def split: option.split)

lemma documentsLoop_snd:
  "snd (documentsLoop ctx docs results seqs) =
     foldl (\<lambda>s doc. case contents doc of None \<Rightarrow> s | Some root \<Rightarrow> sequencesOfRoot root s)
       seqs docs"
  by (induction docs arbitrary: results seqs)
    (simp_all add: Let_def split: option.split)

lemma validateMaestroFlow_nonblank:
  assumes "trim text \<noteq> []"
  shows "validateMaestroFlow h text u =
           syntaxErrors (newContext text u) (parseAllDocuments h text)
           @ (if concat (discoveredSequences h text u) = []
              then [createResult (newContext text u) Error noCommandsMessage None None]
              else concat (map (commandRules h (newContext text u))
                             (concat (discoveredSequences h text u)))
                   @ concat (map (sequenceRules (newContext text u))
                               (discoveredSequences h text u)))"
proof -
  obtain rs seqs where l: "documentsLoop (newContext text u) (parseAllDocuments h text) [] [] = (rs, seqs)"
    by (cases "documentsLoop (newContext text u) (parseAllDocuments h text) [] []")
  have rs: "rs = syntaxErrors (newContext text u) (parseAllDocuments h text)"
    using documentsLoop_fst [of "newContext text u" "parseAllDocuments h text" "[]" "[]"] l by simp
  have seqs: "seqs = discoveredSequences h text u"
    using l by (simp add: discoveredSequences_def)
  show ?thesis
    using assms by (simp add: validateMaestroFlow_def Let_def l rs [symmetric] seqs [symmetric])
qed

lemma yamlErrorResult_fields [simp]:
  "level (yamlErrorResult ctx err) = Error"
  "line (yamlErrorResult ctx err) = pos_line (range_start (vrange (yamlErrorResult ctx err))) + 1"
  by (simp_all add: yamlErrorResult_def Let_def)

lemma syntaxErrors_line:
  "d \<in> set (syntaxErrors ctx docs) \<Longrightarrow> line d = pos_line (range_start (vrange d)) + 1"
  by (auto simp: syntaxErrors_def)

lemma syntaxErrors_level: "d \<in> set (syntaxErrors ctx docs) \<Longrightarrow> level d = Error"
  by (auto simp: syntaxErrors_def)

lemma validateTapOnSelector_line:
  "d \<in> set (validateTapOnSelector cmd ctx) \<Longrightarrow> line d = pos_line (range_start (vrange d)) + 1"
  by (auto simp: validateTapOnSelector_def Let_def
      split: if_splits option.splits node.splits scalar_value.splits)

lemma validateInputTextValue_line:
  "d \<in> set (validateInputTextValue cmd ctx) \<Longrightarrow> line d = pos_line (range_start (vrange d)) + 1"
  by (auto simp: validateInputTextValue_def Let_def
      split: if_splits option.splits node.splits scalar_value.splits)

lemma validateConditionalHasCommands_line:
  "d \<in> set (validateConditionalHasCommands cmd ctx) \<Longrightarrow>
   line d = pos_line (range_start (vrange d)) + 1"
  by (auto simp: validateConditionalHasCommands_def Let_def
      split: if_splits option.splits node.splits)

lemma validateRunFlowFileExists_line:
  "d \<in> set (validateRunFlowFileExists h cmd ctx) \<Longrightarrow>
   line d = pos_line (range_start (vrange d)) + 1"
  by (auto simp: validateRunFlowFileExists_def split: if_splits option.splits)

lemma validateUnknownCommandName_line:
  "d \<in> set (validateUnknownCommandName cmd ctx) \<Longrightarrow>
   line d = pos_line (range_start (vrange d)) + 1"
  by (auto simp: validateUnknownCommandName_def split: if_splits)

lemma validateTakeScreenshotHasName_line:
  "d \<in> set (validateTakeScreenshotHasName cmd ctx) \<Longrightarrow>
   line d = pos_line (range_start (vrange d)) + 1"
  by (auto simp: validateTakeScreenshotHasName_def Let_def
      split: if_splits option.splits node.splits scalar_value.splits)

lemma commandRules_line:
  "d \<in> set (commandRules h ctx cmd) \<Longrightarrow> line d = pos_line (range_start (vrange d)) + 1"
  unfolding commandRules_def set_append Un_iff
  using validateTapOnSelector_line validateInputTextValue_line
    validateConditionalHasCommands_line validateRunFlowFileExists_line
    validateUnknownCommandName_line validateTakeScreenshotHasName_line
  by blast

lemma duplicateLoop_stop:
  "\<not> i < length sequence - 1 \<Longrightarrow> duplicateLoop sequence ctx i results = results"
  by (subst duplicateLoop.simps) (simp add: int_less_pred_iff)

lemma duplicateLoop_step:
  "i < length sequence - 1 \<Longrightarrow>
   \<exists>raw nd cn.
     duplicateLoop sequence ctx i results =
       (if name (sequence ! i) = name (sequence ! (i + 1))
        then duplicateLoop sequence ctx (i + 1) (results @ [createResult ctx Warning raw nd cn])
        else duplicateLoop sequence ctx (i + 1) results)"
  by (subst duplicateLoop.simps) (auto simp: Let_def int_less_pred_iff)

lemma duplicateLoop_line:
  "\<forall>d \<in> set results. line d = pos_line (range_start (vrange d)) + 1 \<Longrightarrow>
   \<forall>d \<in> set (duplicateLoop sequence ctx i results). line d = pos_line (range_start (vrange d)) + 1"
proof (induction "length sequence - 1 - i" arbitrary: i results)
  case 0
  then have "\<not> i < length sequence - 1" by simp
  then show ?case using "0.prems" by (simp add: duplicateLoop_stop)
next
  case (Suc n)
  then have lt: "i < length sequence - 1" and n: "n = length sequence - 1 - (i + 1)" by simp_all
  obtain raw nd cn where st: "duplicateLoop sequence ctx i results =
       (if name (sequence ! i) = name (sequence ! (i + 1))
        then duplicateLoop sequence ctx (i + 1) (results @ [createResult ctx Warning raw nd cn])
        else duplicateLoop sequence ctx (i + 1) results)"
    using duplicateLoop_step [OF lt] by blast
  have ext: "\<forall>x \<in> set (results @ [createResult ctx Warning raw nd cn]).
               line x = pos_line (range_start (vrange x)) + 1"
    using Suc.prems by simp
  show ?case
  proof (cases "name (sequence ! i) = name (sequence ! (i + 1))")
    case True
    then show ?thesis unfolding st using Suc.hyps(1) [OF n ext] by simp
  next
    case False
    then show ?thesis unfolding st using Suc.hyps(1) [OF n Suc.prems] by simp
  qed
qed

lemma sequenceRules_line:
  "d \<in> set (sequenceRules ctx sequence) \<Longrightarrow> line d = pos_line (range_start (vrange d)) + 1"
  using duplicateLoop_line [of "[]" sequence ctx 0]
  by (auto simp: sequenceRules_eq afterTapOnWarning_def priorNavigationWarning_def
      validateDuplicateSequentialActions_def)

text \<open>
  C3. Every diagnostic the entry point returns, whatever the text, the parser's answer
  and the file system (a syntax error, a finding of a command rule or of a sequence rule,
  the empty-flow or the no-commands error), has as \<open>line\<close> the 0-based start line of
  its range plus 1.
\<close>
theorem line_is_range_start:
  "\<forall>d \<in> set (validateMaestroFlow h text u). line d = pos_line (range_start (vrange d)) + 1"
proof (cases "trim text = []")
  case True
  then show ?thesis by (simp add: validateMaestroFlow_def)
next
  case False
  show ?thesis
    unfolding validateMaestroFlow_nonblank [OF False]
    using syntaxErrors_line commandRules_line sequenceRules_line
    by (auto split: if_splits)
qed


lemma trim_nonblank: "c \<in> set s \<Longrightarrow> \<not> isWhiteSpace c \<Longrightarrow> trim s \<noteq> []"
  using trim_empty_iff by blast

lemma tapThenAssert_sequences:
  "discoveredSequences (exampleHost tapThenAssertDocs ex) tapThenAssertText exampleUri
     = [tapThenAssert]"
  by (simp add: discoveredSequences_def exampleHost_def tapThenAssertDocs_def sequencesOfRoot_def
      extractCommandsFromSequence_def tapThenAssert_def trim_def js_def isWhiteSpace_def)

lemma tapThenAssert_commandRules:
  "concat (map (commandRules h ctx) tapThenAssert) = []"
  by (simp add: tapThenAssert_def commandRules_def validateTapOnSelector_def
      validateInputTextValue_def validateConditionalHasCommands_def validateRunFlowFileExists_def
      validateUnknownCommandName_def validateTakeScreenshotHasName_def KNOWN_COMMANDS_def
      trim_def js_def isWhiteSpace_def)

lemma tapThenAssert_sequenceRules:
  "sequenceRules ctx tapThenAssert = [afterTapOnWarning ctx tapThenAssert 0]"
proof -
  have ne: "js ''tapOn'' \<noteq> js ''assertVisible''" by (simp add: js_def)
  have d: "adjacentPairs tapThenAssert = [0]"
    by (simp add: adjacentPairs_def tapOnThenAssertVisible_def tapThenAssert_def)
  have e: "withoutPriorNavigation tapThenAssert {Suc 0} = []"
    using ne by (simp add: withoutPriorNavigation_def tapThenAssert_def)
  have f: "validateDuplicateSequentialActions tapThenAssert ctx = []"
    using ne by (simp add: validateDuplicateSequentialActions_def duplicateLoop.simps tapThenAssert_def)
  show ?thesis by (simp add: sequenceRules_eq d e f)
qed

lemma tapThenAssert_nonblank: "trim tapThenAssertText \<noteq> []"
  by (rule trim_nonblank [of 45]) (simp_all add: tapThenAssertText_def js_def isWhiteSpace_def)

lemma tapThenAssert_flow:
  "validateMaestroFlow (exampleHost tapThenAssertDocs ex) tapThenAssertText exampleUri
     = [afterTapOnWarning (newContext tapThenAssertText exampleUri) tapThenAssert 0]"
proof -
  have p: "parseAllDocuments (exampleHost tapThenAssertDocs ex) tapThenAssertText = tapThenAssertDocs"
    by (simp add: exampleHost_def)
  have s: "syntaxErrors (newContext tapThenAssertText exampleUri) tapThenAssertDocs = []"
    by (simp add: syntaxErrors_def tapThenAssertDocs_def)
  have n: "tapThenAssert \<noteq> []" by (simp add: tapThenAssert_def)
  show ?thesis
    unfolding validateMaestroFlow_nonblank [OF tapThenAssert_nonblank] tapThenAssert_sequences p s
    using n by (simp add: tapThenAssert_commandRules tapThenAssert_sequenceRules)
qed

theorem line_is_range_start_witness:
  "validateMaestroFlow (exampleHost tapThenAssertDocs (\<lambda>p. False)) tapThenAssertText exampleUri
     = [afterTapOnWarning (newContext tapThenAssertText exampleUri) tapThenAssert 0]
   \<and> line (afterTapOnWarning (newContext tapThenAssertText exampleUri) tapThenAssert 0)
       = pos_line (range_start
           (vrange (afterTapOnWarning (newContext tapThenAssertText exampleUri) tapThenAssert 0))) + 1
   \<and> line (afterTapOnWarning (newContext tapThenAssertText exampleUri) tapThenAssert 0) = 2"
proof -
  have lo: "computeLineOffsets tapThenAssertText = [0, 11]"
    by (simp add: computeLineOffsets_def tapThenAssertText_def js_def)
  have len: "length tapThenAssertText = 29" by (simp add: tapThenAssertText_def js_def)
  have p1: "offsetToPosition 13 [0, 11] = \<lparr>pos_line = 1, pos_character = 2\<rparr>"
    by (simp add: offsetToPosition_def offsetSearch.simps)
  have p2: "offsetToPosition 26 [0, 11] = \<lparr>pos_line = 1, pos_character = 15\<rparr>"
    by (simp add: offsetToPosition_def offsetSearch.simps)
  have g: "line (afterTapOnWarning (newContext tapThenAssertText exampleUri) tapThenAssert 0) = 2"
    by (simp add: afterTapOnWarning_def tapThenAssert_def rangeFromNode_def newContext_def lo len
        p1 p2 newRange_def isBefore_def)
  show ?thesis
    using line_is_range_start [of "exampleHost tapThenAssertDocs (\<lambda>p. False)" tapThenAssertText
        exampleUri] g
    by (simp add: tapThenAssert_flow)
qed

section \<open>Degenerate inputs\<close>

lemma degenerate_messages_differ:
  "message (createResult ctx Error noCommandsMessage None None)
     \<noteq> message (createResult ctx' Error emptyFlowMessage None None)"
proof -
  have "noCommandsMessage \<noteq> emptyFlowMessage"
    by (simp add: noCommandsMessage_def emptyFlowMessage_def js_def)
  then show ?thesis
    by (simp add: createResult_def rangeFromNode_None)
qed

text \<open>
  C5. For a text that is not blank and in which no command is discovered, the entry point
  returns the syntax-error diagnostics of the documents, in document order, followed by
  the no-commands error and nothing else: as many diagnostics as there are syntax errors,
  plus one, all of Error level. The message of the last one differs from the message for
  a blank text. With a syntax error in the text there is more than one diagnostic;
  without any there is exactly one.
\<close>
theorem no_commands_found:
  assumes "trim text \<noteq> []"
    and "concat (discoveredSequences h text u) = []"
  shows "validateMaestroFlow h text u
           = syntaxErrors (newContext text u) (parseAllDocuments h text)
             @ [createResult (newContext text u) Error noCommandsMessage None None]
       \<and> (\<forall>d \<in> set (validateMaestroFlow h text u). level d = Error)
       \<and> length (validateMaestroFlow h text u)
           = length (concat (map errors (parseAllDocuments h text))) + 1
       \<and> message (last (validateMaestroFlow h text u))
           \<noteq> message (createResult (newContext blank u') Error emptyFlowMessage None None)"
proof -
  have v: "validateMaestroFlow h text u
           = syntaxErrors (newContext text u) (parseAllDocuments h text)
             @ [createResult (newContext text u) Error noCommandsMessage None None]"
    using assms(2) by (simp add: validateMaestroFlow_nonblank [OF assms(1)])
  have l: "length (syntaxErrors (newContext text u) (parseAllDocuments h text))
             = length (concat (map errors (parseAllDocuments h text)))"
    by (simp add: syntaxErrors_def length_concat comp_def)
  show ?thesis
    unfolding v using syntaxErrors_level l degenerate_messages_differ by auto
qed

theorem no_commands_found_witness:
  "trim configOnlyText \<noteq> []
   \<and> concat (discoveredSequences (exampleHost configOnlyDocs (\<lambda>p. False)) configOnlyText
               exampleUri) = []
   \<and> validateMaestroFlow (exampleHost configOnlyDocs (\<lambda>p. False)) configOnlyText exampleUri
       = [createResult (newContext configOnlyText exampleUri) Error noCommandsMessage None None]
   \<and> length (validateMaestroFlow (exampleHost configOnlyDocs (\<lambda>p. False)) configOnlyText
               exampleUri) = 1"
proof -
  have a: "trim configOnlyText \<noteq> []"
    by (rule trim_nonblank [of 97]) (simp_all add: configOnlyText_def js_def isWhiteSpace_def)
  have b: "concat (discoveredSequences (exampleHost configOnlyDocs (\<lambda>p. False)) configOnlyText
               exampleUri) = []"
    by (simp add: discoveredSequences_def exampleHost_def configOnlyDocs_def sequencesOfRoot_def
        pushNestedCommands_def)
  have c: "syntaxErrors (newContext configOnlyText exampleUri)
             (parseAllDocuments (exampleHost configOnlyDocs (\<lambda>p. False)) configOnlyText) = []"
    by (simp add: syntaxErrors_def exampleHost_def configOnlyDocs_def)
  show ?thesis
    using a b no_commands_found [OF a b, of blank exampleUri]
    by (simp add: c)
qed

theorem no_commands_found_counterexample:
  "trim unclosedQuoteText \<noteq> []
   \<and> concat (discoveredSequences (exampleHost unclosedQuoteDocs (\<lambda>p. False)) unclosedQuoteText
               exampleUri) = []
   \<and> length (validateMaestroFlow (exampleHost unclosedQuoteDocs (\<lambda>p. False)) unclosedQuoteText
               exampleUri) = 2"
proof -
  have a: "trim unclosedQuoteText \<noteq> []"
    by (rule trim_nonblank [of 97]) (simp_all add: unclosedQuoteText_def js_def isWhiteSpace_def)
  have b: "concat (discoveredSequences (exampleHost unclosedQuoteDocs (\<lambda>p. False))
             unclosedQuoteText exampleUri) = []"
    by (simp add: discoveredSequences_def exampleHost_def unclosedQuoteDocs_def
        sequencesOfRoot_def pushNestedCommands_def)
  have c: "length (syntaxErrors (newContext unclosedQuoteText exampleUri)
             (parseAllDocuments (exampleHost unclosedQuoteDocs (\<lambda>p. False)) unclosedQuoteText)) = 1"
    by (simp add: syntaxErrors_def exampleHost_def unclosedQuoteDocs_def)
  show ?thesis
    using a b c by (simp add: validateMaestroFlow_nonblank [OF a])
qed


section \<open>Discovery of nested sequences\<close>

text \<open>
  Every extracted command has a name that is not blank and a name node. A root that is a
  list contributes its own commands only: nothing below its items is searched.
\<close>

lemma commandsOfItem_name:
  "c \<in> set (commandsOfItem item) \<Longrightarrow> trim (name c) \<noteq> [] \<and> nameNode c \<noteq> None"
  by (cases item rule: commandsOfItem.cases)
    (auto split: scalar_value.splits list.splits option.splits node.splits if_splits)

lemma extractCommandsFromSequence_name:
  "c \<in> set (extractCommandsFromSequence items) \<Longrightarrow> trim (name c) \<noteq> [] \<and> nameNode c \<noteq> None"
  using commandsOfItem_name by (auto simp: extractCommandsFromSequence_def)

lemma sequencesOfRoot_list:
  "sequencesOfRoot (YAMLSeq items r) commandSequences =
     (if extractCommandsFromSequence items = [] then commandSequences
      else commandSequences @ [extractCommandsFromSequence items])"
  by (simp add: sequencesOfRoot_def Let_def)

text \<open>
  C1. The search for nested \<open>commands\<close> lists starts only at a root that is a mapping
  and descends only through values that are mappings. In the flow \<open>repeatText\<close>, whose
  root is a list, the \<open>commands\<close> list under the \<open>repeat\<close> command is not discovered:
  the only sequence is the top-level one, and the \<open>tapOn\<close> without selector inside the
  block is not reported. The same block under a root mapping is discovered, and its
  \<open>tapOn\<close> is reported.
\<close>
theorem nested_commands_under_list_item_missed:
  "trim repeatText \<noteq> []
   \<and> discoveredSequences (exampleHost repeatDocs (\<lambda>p. False)) repeatText exampleUri
       = [[repeatCommand]]
   \<and> validateMaestroFlow (exampleHost repeatDocs (\<lambda>p. False)) repeatText exampleUri = []
   \<and> discoveredSequences (exampleHost repeatAtRootDocs (\<lambda>p. False)) repeatAtRootText exampleUri
       = [[bareTapOn]]
   \<and> map level (validateMaestroFlow (exampleHost repeatAtRootDocs (\<lambda>p. False)) repeatAtRootText
                    exampleUri) = [Error]"
proof -
  have a: "trim repeatText \<noteq> []"
    by (rule trim_nonblank [of 45]) (simp_all add: repeatText_def js_def isWhiteSpace_def)
  have a': "trim repeatAtRootText \<noteq> []"
    by (rule trim_nonblank [of 114]) (simp_all add: repeatAtRootText_def js_def isWhiteSpace_def)
  have b: "discoveredSequences (exampleHost repeatDocs (\<lambda>p. False)) repeatText exampleUri
             = [[repeatCommand]]"
    by (simp add: discoveredSequences_def exampleHost_def repeatDocs_def sequencesOfRoot_def
        extractCommandsFromSequence_def repeatCommand_def trim_def js_def isWhiteSpace_def)
  have b': "discoveredSequences (exampleHost repeatAtRootDocs (\<lambda>p. False)) repeatAtRootText
              exampleUri = [[bareTapOn]]"
    by (simp add: discoveredSequences_def exampleHost_def repeatAtRootDocs_def sequencesOfRoot_def
        pushNestedCommands_def extractCommandsFromSequence_def bareTapOn_def trim_def js_def
        isWhiteSpace_def)
  have c: "commandRules h ctx repeatCommand = []" for h ctx
    by (simp add: repeatCommand_def commandRules_def validateTapOnSelector_def
        validateInputTextValue_def validateConditionalHasCommands_def validateRunFlowFileExists_def
        validateUnknownCommandName_def validateTakeScreenshotHasName_def KNOWN_COMMANDS_def js_def)
  have d: "sequenceRules ctx [repeatCommand] = []" for ctx
    by (simp add: sequenceRules_eq adjacentPairs_def validateDuplicateSequentialActions_def
        duplicateLoop.simps withoutPriorNavigation_def repeatCommand_def js_def)
  have e: "map level (commandRules h ctx bareTapOn) = [Error]" for h ctx
    by (simp add: bareTapOn_def commandRules_def validateTapOnSelector_def
        validateInputTextValue_def validateConditionalHasCommands_def validateRunFlowFileExists_def
        validateUnknownCommandName_def validateTakeScreenshotHasName_def KNOWN_COMMANDS_def js_def)
  have d': "sequenceRules ctx [bareTapOn] = []" for ctx
    by (simp add: sequenceRules_eq adjacentPairs_def validateDuplicateSequentialActions_def
        duplicateLoop.simps withoutPriorNavigation_def bareTapOn_def js_def)
  have s: "syntaxErrors ctx (parseAllDocuments (exampleHost repeatDocs (\<lambda>p. False)) t) = []" for ctx t
    by (simp add: syntaxErrors_def exampleHost_def repeatDocs_def)
  have s': "syntaxErrors ctx (parseAllDocuments (exampleHost repeatAtRootDocs (\<lambda>p. False)) t) = []"
    for ctx t
    by (simp add: syntaxErrors_def exampleHost_def repeatAtRootDocs_def)
  have v: "validateMaestroFlow (exampleHost repeatDocs (\<lambda>p. False)) repeatText exampleUri = []"
    by (simp add: validateMaestroFlow_nonblank [OF a] b s c d)
  have v': "map level (validateMaestroFlow (exampleHost repeatAtRootDocs (\<lambda>p. False))
              repeatAtRootText exampleUri) = [Error]"
    by (simp add: validateMaestroFlow_nonblank [OF a'] b' s' e d')
  show ?thesis using a b v b' v' by simp
qed

section \<open>Determinism\<close>

text \<open>
  The host with another file system: nothing but the existence probe reads it.
\<close>

lemma resolvedPath_existsSync [simp]:
  "resolvedPath (h\<lparr>existsSync := fs\<rparr>) ctx p = resolvedPath h ctx p"
  by (simp add: resolvedPath_def)

lemma runFlowTargets_single:
  "name cmd = js ''runFlow'' \<Longrightarrow> valueNode cmd = Some v \<Longrightarrow>
   extractRunFlowTargetPath v = Some p \<Longrightarrow> runFlowTargets [cmd] = [p]"
  by (simp add: runFlowTargets_def)

lemma validateRunFlowFileExists_cong:
  assumes "\<forall>p \<in> set (runFlowTargets [cmd]). fs1 (resolvedPath h ctx p) = fs2 (resolvedPath h ctx p)"
  shows "validateRunFlowFileExists (h\<lparr>existsSync := fs1\<rparr>) cmd ctx
           = validateRunFlowFileExists (h\<lparr>existsSync := fs2\<rparr>) cmd ctx"
proof (cases "name cmd = js ''runFlow''")
  case False
  then show ?thesis by (simp add: validateRunFlowFileExists_def)
next
  case True
  show ?thesis
  proof (cases "valueNode cmd")
    case None
    then show ?thesis by (simp add: validateRunFlowFileExists_def)
  next
    case (Some v)
    show ?thesis
    proof (cases "extractRunFlowTargetPath v")
      case None
      then show ?thesis using Some by (simp add: validateRunFlowFileExists_def)
    next
      case p: (Some p)
      have "fs1 (resolvedPath h ctx p) = fs2 (resolvedPath h ctx p)"
        using assms runFlowTargets_single [OF True Some p] by simp
      then show ?thesis using Some p by (simp add: validateRunFlowFileExists_def)
    qed
  qed
qed

lemma runFlowTargets_Cons: "runFlowTargets (c # cs) = runFlowTargets [c] @ runFlowTargets cs"
  unfolding runFlowTargets_def by (simp only: list.map concat.simps append_Nil2)

lemma runFlowTargets_mono:
  "cmd \<in> set cmds \<Longrightarrow> set (runFlowTargets [cmd]) \<subseteq> set (runFlowTargets cmds)"
proof (induction cmds)
  case Nil
  then show ?case by simp
next
  case (Cons c cs)
  show ?case
  proof (cases "cmd = c")
    case True
    then show ?thesis by (subst (2) runFlowTargets_Cons) simp
  next
    case False
    then have "set (runFlowTargets [cmd]) \<subseteq> set (runFlowTargets cs)"
      using Cons by simp
    then show ?thesis by (subst (2) runFlowTargets_Cons) auto
  qed
qed

lemma commandRules_cong:
  assumes "\<forall>p \<in> set (runFlowTargets [cmd]). fs1 (resolvedPath h ctx p) = fs2 (resolvedPath h ctx p)"
  shows "commandRules (h\<lparr>existsSync := fs1\<rparr>) ctx cmd = commandRules (h\<lparr>existsSync := fs2\<rparr>) ctx cmd"
  by (simp add: commandRules_def validateRunFlowFileExists_cong [OF assms])

lemma discoveredSequences_existsSync [simp]:
  "discoveredSequences (h\<lparr>existsSync := fs\<rparr>) text u = discoveredSequences h text u"
  by (simp add: discoveredSequences_def)

lemma probedPaths_existsSync [simp]:
  "probedPaths (h\<lparr>existsSync := fs\<rparr>) text u = probedPaths h text u"
  by (simp add: probedPaths_def)

text \<open>
  C9. The entry point is a function of the text, the location, the parser's answer and the
  file system, and of the file system it depends only through the existence of the
  resolved targets of the discovered \<open>runFlow\<close> commands: two runs on the same text and
  location, under file-system states that agree on those paths, return the same list of
  diagnostics, element for element and in the same order.
\<close>
theorem validation_deterministic:
  assumes "\<forall>p \<in> set (probedPaths h text u). fs1 p = fs2 p"
  shows "validateMaestroFlow (h\<lparr>existsSync := fs1\<rparr>) text u
           = validateMaestroFlow (h\<lparr>existsSync := fs2\<rparr>) text u"
proof (cases "trim text = []")
  case True
  then show ?thesis by (simp add: validateMaestroFlow_def)
next
  case False
  let ?ctx = "newContext text u"
  let ?cmds = "concat (discoveredSequences h text u)"
  have "commandRules (h\<lparr>existsSync := fs1\<rparr>) ?ctx cmd = commandRules (h\<lparr>existsSync := fs2\<rparr>) ?ctx cmd"
    if "cmd \<in> set ?cmds" for cmd
  proof (rule commandRules_cong, rule ballI)
    fix p assume "p \<in> set (runFlowTargets [cmd])"
    then have "p \<in> set (runFlowTargets ?cmds)" using runFlowTargets_mono [OF that] by blast
    then have "resolvedPath h ?ctx p \<in> set (probedPaths h text u)"
      by (simp add: probedPaths_def)
    then show "fs1 (resolvedPath h ?ctx p) = fs2 (resolvedPath h ?ctx p)" using assms by blast
  qed
  then have "map (commandRules (h\<lparr>existsSync := fs1\<rparr>) ?ctx) ?cmds
               = map (commandRules (h\<lparr>existsSync := fs2\<rparr>) ?ctx) ?cmds"
    by simp
  then have eq: "concat (map (commandRules (h\<lparr>existsSync := fs1\<rparr>) ?ctx) ?cmds)
               = concat (map (commandRules (h\<lparr>existsSync := fs2\<rparr>) ?ctx) ?cmds)"
    by (simp only:)
  show ?thesis
    by (simp add: validateMaestroFlow_nonblank [OF False] eq)
qed


lemma runFlow_sequences:
  "discoveredSequences (exampleHost runFlowDocs ex) runFlowText exampleUri = [[runFlowMissing]]"
  by (simp add: discoveredSequences_def exampleHost_def runFlowDocs_def sequencesOfRoot_def
      extractCommandsFromSequence_def runFlowMissing_def trim_def js_def isWhiteSpace_def)

lemma runFlow_probedPaths:
  "probedPaths (exampleHost runFlowDocs ex) runFlowText exampleUri
     = [js ''/flows'' @ js ''/'' @ js ''missing.yaml'']"
proof -
  have "runFlowTargets [runFlowMissing] = [js ''missing.yaml'']"
    by (simp add: runFlowTargets_def runFlowMissing_def extractRunFlowTargetPath_def)
  moreover have "resolvedPath (exampleHost runFlowDocs ex) ctx (js ''missing.yaml'')
                   = js ''/flows'' @ js ''/'' @ js ''missing.yaml''" for ctx
    by (simp add: resolvedPath_def exampleHost_def js_def)
  ultimately show ?thesis by (simp add: probedPaths_def runFlow_sequences)
qed

theorem validation_deterministic_witness:
  "probedPaths (exampleHost runFlowDocs (\<lambda>p. False)) runFlowText exampleUri
     = [js ''/flows'' @ js ''/'' @ js ''missing.yaml'']
   \<and> js ''/flows'' @ js ''/'' @ js ''missing.yaml'' \<noteq> js ''/elsewhere''
   \<and> validateMaestroFlow (exampleHost runFlowDocs (\<lambda>p. False)) runFlowText exampleUri
       = validateMaestroFlow (exampleHost runFlowDocs (\<lambda>p. p = js ''/elsewhere'')) runFlowText
           exampleUri"
proof -
  let ?h = "exampleHost runFlowDocs (\<lambda>p. False)"
  have ne: "js ''/flows'' @ js ''/'' @ js ''missing.yaml'' \<noteq> js ''/elsewhere''"
    by (simp add: js_def)
  have agree: "\<forall>p \<in> set (probedPaths ?h runFlowText exampleUri).
                 (\<lambda>p. False) p = (\<lambda>p. p = js ''/elsewhere'') p"
    using ne by (simp add: runFlow_probedPaths)
  have h1: "?h\<lparr>existsSync := (\<lambda>p. False)\<rparr> = ?h" by (simp add: exampleHost_def)
  have h2: "?h\<lparr>existsSync := (\<lambda>p. p = js ''/elsewhere'')\<rparr>
              = exampleHost runFlowDocs (\<lambda>p. p = js ''/elsewhere'')"
    by (simp add: exampleHost_def)
  show ?thesis
    using validation_deterministic [OF agree] ne
    by (simp only: h1 h2 runFlow_probedPaths simp_thms)
qed

end
